theory Spec2Isabelle
  imports Main
begin

section \<open>Data model of \<open>src/pages/Index.tsx\<close>\<close>

datatype PieceType = King | Queen | Rook | Bishop | Knight | Pawn

datatype PieceColor = White | Black

record Piece =
  type :: PieceType
  color :: PieceColor

text \<open>
  \<open>type Board = (Piece | null)[][]\<close>: an array of rows, each an array of cells;
  \<open>null\<close> is \<open>None\<close>. The type does not fix the size; the boards the page builds
  are 8 by 8 (\<open>wfBoard\<close>), and squares are pairs of indices in 0..7 (\<open>inRange\<close>).
\<close>

type_synonym Board = "Piece option list list"

definition wfBoard :: "Board \<Rightarrow> bool" where
  "wfBoard board = (length board = 8 \<and> list_all (\<lambda>row. length row = 8) board)"

definition inRange :: "int \<Rightarrow> int \<Rightarrow> bool" where
  "inRange r c = (0 \<le> r \<and> r < 8 \<and> 0 \<le> c \<and> c < 8)"

definition blackBackRank :: "Piece option list" where
  "blackBackRank =
     [Some \<lparr>type = Rook, color = Black\<rparr>, Some \<lparr>type = Knight, color = Black\<rparr>,
      Some \<lparr>type = Bishop, color = Black\<rparr>, Some \<lparr>type = Queen, color = Black\<rparr>,
      Some \<lparr>type = King, color = Black\<rparr>, Some \<lparr>type = Bishop, color = Black\<rparr>,
      Some \<lparr>type = Knight, color = Black\<rparr>, Some \<lparr>type = Rook, color = Black\<rparr>]"

definition whiteBackRank :: "Piece option list" where
  "whiteBackRank =
     [Some \<lparr>type = Rook, color = White\<rparr>, Some \<lparr>type = Knight, color = White\<rparr>,
      Some \<lparr>type = Bishop, color = White\<rparr>, Some \<lparr>type = Queen, color = White\<rparr>,
      Some \<lparr>type = King, color = White\<rparr>, Some \<lparr>type = Bishop, color = White\<rparr>,
      Some \<lparr>type = Knight, color = White\<rparr>, Some \<lparr>type = Rook, color = White\<rparr>]"

definition emptyRow :: "Piece option list" where
  "emptyRow = [None, None, None, None, None, None, None, None]"

definition pawnRow :: "PieceColor \<Rightarrow> Piece option list" where
  "pawnRow col = map (\<lambda>_. Some \<lparr>type = Pawn, color = col\<rparr>) emptyRow"

definition initialBoard :: Board where
  "initialBoard =
     [blackBackRank, pawnRow Black, emptyRow, emptyRow, emptyRow, emptyRow,
      pawnRow White, whiteBackRank]"

text \<open>
  A position some moves into a game, for the concrete checks below: a black pawn has
  advanced to row 3, a black knight stands in front of the white pawn of column 0
  and a black bishop next to the square in front of the white pawn of column 4.
\<close>

definition sampleBoard :: Board where
  "sampleBoard =
     [ [Some \<lparr>type = Rook, color = Black\<rparr>, None, None, Some \<lparr>type = Queen, color = Black\<rparr>,
       Some \<lparr>type = King, color = Black\<rparr>, Some \<lparr>type = Bishop, color = Black\<rparr>,
       Some \<lparr>type = Knight, color = Black\<rparr>, Some \<lparr>type = Rook, color = Black\<rparr>],
      [Some \<lparr>type = Pawn, color = Black\<rparr>, Some \<lparr>type = Pawn, color = Black\<rparr>, None,
       Some \<lparr>type = Pawn, color = Black\<rparr>, Some \<lparr>type = Pawn, color = Black\<rparr>,
       Some \<lparr>type = Pawn, color = Black\<rparr>, Some \<lparr>type = Pawn, color = Black\<rparr>,
       Some \<lparr>type = Pawn, color = Black\<rparr>],
      emptyRow,
      [None, None, Some \<lparr>type = Pawn, color = Black\<rparr>, None, None, None, None, None],
      emptyRow,
      [Some \<lparr>type = Knight, color = Black\<rparr>, None, None, Some \<lparr>type = Bishop, color = Black\<rparr>,
       None, None, None, None],
      pawnRow White,
      whiteBackRank]"

text \<open>A board that holds the black king and nothing else.\<close>

definition loneKingBoard :: Board where
  "loneKingBoard =
     [ [Some \<lparr>type = King, color = Black\<rparr>, None, None, None, None, None, None, None],
      emptyRow, emptyRow, emptyRow, emptyRow, emptyRow, emptyRow, emptyRow]"

section \<open>Reading a square\<close>

text \<open>
  \<open>TypeError\<close> is what JavaScript throws on \<open>undefined[c]\<close>. \<open>OutOfBounds\<close> is not
  thrown by the page: it marks an index outside an array in the checked read below
  and in the cell write of the move application.
\<close>

datatype error = TypeError | OutOfBounds

text \<open>
  \<open>board[r][c]\<close> as JavaScript evaluates it: for \<open>r\<close> outside the outer array
  \<open>board[r]\<close> is \<open>undefined\<close> and indexing it throws; for \<open>c\<close> outside the row the
  value is \<open>undefined\<close>, which every use in the page treats like \<open>null\<close> (only
  its truthiness is tested), so it is \<open>None\<close> here.
\<close>

definition boardAt :: "Board \<Rightarrow> int \<Rightarrow> int \<Rightarrow> error + Piece option" where
  "boardAt board r c =
     (if 0 \<le> r \<and> r < int (length board) then
        (let row = board ! nat r in
         if 0 \<le> c \<and> c < int (length row) then Inr (row ! nat c) else Inr None)
      else Inl TypeError)"

text \<open>
  The same read with every index checked: an index outside the outer array or
  outside the row is the error \<open>OutOfBounds\<close>.
\<close>

definition boardAtChecked :: "Board \<Rightarrow> int \<Rightarrow> int \<Rightarrow> error + Piece option" where
  "boardAtChecked board r c =
     (if 0 \<le> r \<and> r < int (length board) then
        (let row = board ! nat r in
         if 0 \<le> c \<and> c < int (length row) then Inr (row ! nat c) else Inl OutOfBounds)
      else Inl OutOfBounds)"

section \<open>\<open>isValidMove\<close>\<close>

text \<open>
  \<open>isValidMove\<close> closes over the state variable \<open>board\<close> and only reads it, always
  as \<open>board[r][c]\<close>. The functions below take that read as the parameter \<open>rd\<close>;
  \<open>isValidMove board\<close> is the instance at \<open>boardAt board\<close>. Rows and columns are
  JavaScript numbers; every caller in the page passes loop counters and array
  indices, and they are integers here.

  The two \<open>for\<close> loops of the rook case (they occur again, unchanged, in the queen
  case). \<open>Inr False\<close> is the \<open>return false\<close> inside the loop, \<open>Inr True\<close> the
  \<open>return true\<close> that follows it.
\<close>

function scanRow :: "(int \<Rightarrow> int \<Rightarrow> error + Piece option) \<Rightarrow> int \<Rightarrow> int \<Rightarrow> int \<Rightarrow> error + bool" where
  "scanRow rd fromRow c endC =
     (if c < endC then
        (case rd fromRow c of
           Inl e \<Rightarrow> Inl e
         | Inr sq \<Rightarrow> if sq \<noteq> None then Inr False else scanRow rd fromRow (c + 1) endC)
      else Inr True)"
  by pat_completeness auto
termination
  by (relation "measure (\<lambda>(rd, fromRow, c, endC). nat (endC - c))") auto

function scanCol :: "(int \<Rightarrow> int \<Rightarrow> error + Piece option) \<Rightarrow> int \<Rightarrow> int \<Rightarrow> int \<Rightarrow> error + bool" where
  "scanCol rd fromCol r endR =
     (if r < endR then
        (case rd r fromCol of
           Inl e \<Rightarrow> Inl e
         | Inr sq \<Rightarrow> if sq \<noteq> None then Inr False else scanCol rd fromCol (r + 1) endR)
      else Inr True)"
  by pat_completeness auto
termination
  by (relation "measure (\<lambda>(rd, fromCol, r, endR). nat (endR - r))") auto

definition straightPath ::
  "(int \<Rightarrow> int \<Rightarrow> error + Piece option) \<Rightarrow> int \<Rightarrow> int \<Rightarrow> int \<Rightarrow> int \<Rightarrow> error + bool" where
  "straightPath rd fromRow fromCol toRow toCol =
     (let (startR, endR) = (if fromRow < toRow then (fromRow, toRow) else (toRow, fromRow));
          (startC, endC) = (if fromCol < toCol then (fromCol, toCol) else (toCol, fromCol))
      in if fromRow = toRow then scanRow rd fromRow (startC + 1) endC
         else scanCol rd fromCol (startR + 1) endR)"

text \<open>
  The \<open>while (r !== toRow && c !== toCol)\<close> loop of the bishop case (again in the
  queen case). Nothing in the loop itself bounds the number of rounds, so the result
  is an option: \<open>None\<close> is a loop that never ends.
\<close>

partial_function (option) diagLoop ::
  "(int \<Rightarrow> int \<Rightarrow> error + Piece option) \<Rightarrow> int \<Rightarrow> int \<Rightarrow> int \<Rightarrow> int \<Rightarrow> int \<Rightarrow> int \<Rightarrow> (error + bool) option" where
  "diagLoop rd toRow toCol rowDir colDir r c =
     (if r \<noteq> toRow \<and> c \<noteq> toCol then
        (case rd r c of
           Inl e \<Rightarrow> Some (Inl e)
         | Inr sq \<Rightarrow>
             if sq \<noteq> None then Some (Inr False)
             else diagLoop rd toRow toCol rowDir colDir (r + rowDir) (c + colDir))
      else Some (Inr True))"

declare diagLoop.simps [code]

definition diagonalPath ::
  "(int \<Rightarrow> int \<Rightarrow> error + Piece option) \<Rightarrow> int \<Rightarrow> int \<Rightarrow> int \<Rightarrow> int \<Rightarrow> (error + bool) option" where
  "diagonalPath rd fromRow fromCol toRow toCol =
     (let rowDir = (if toRow > fromRow then 1 else -1);
          colDir = (if toCol > fromCol then 1 else -1)
      in diagLoop rd toRow toCol rowDir colDir (fromRow + rowDir) (fromCol + colDir))"

text \<open>
  The pawn case. \<open>direction\<close> and \<open>startRow\<close> are the two constants it computes
  from the colour. \<open>&&\<close> evaluates from the left and stops at the first false
  operand, so the square in front of the pawn is read only on a two-row advance from
  the starting row. \<open>capture\<close> is the last \<open>if\<close> of the case, reached whenever no
  earlier \<open>return\<close> was taken.
\<close>

definition direction :: "PieceColor \<Rightarrow> int" where
  "direction col = (if col = White then -1 else 1)"

definition startRow :: "PieceColor \<Rightarrow> int" where
  "startRow col = (if col = White then 6 else 1)"

definition pawnMove ::
  "(int \<Rightarrow> int \<Rightarrow> error + Piece option) \<Rightarrow> Piece \<Rightarrow> Piece option \<Rightarrow> int \<Rightarrow> int \<Rightarrow> int \<Rightarrow> int \<Rightarrow> error + bool" where
  "pawnMove rd piece targetPiece fromRow fromCol toRow toCol =
     (let colDiff = \<bar>toCol - fromCol\<bar>;
          capture = Inr (colDiff = 1 \<and> toRow = fromRow + direction (color piece) \<and> targetPiece \<noteq> None)
      in if toCol = fromCol \<and> targetPiece = None then
           (if toRow = fromRow + direction (color piece) then Inr True
            else if fromRow = startRow (color piece) \<and> toRow = fromRow + 2 * direction (color piece) then
              (case rd (fromRow + direction (color piece)) fromCol of
                 Inl e \<Rightarrow> Inl e
               | Inr sq \<Rightarrow> if sq = None then Inr True else capture)
            else capture)
         else capture)"

definition isValidMoveWith ::
  "(int \<Rightarrow> int \<Rightarrow> error + Piece option) \<Rightarrow> int \<Rightarrow> int \<Rightarrow> int \<Rightarrow> int \<Rightarrow> (error + bool) option" where
  "isValidMoveWith rd fromRow fromCol toRow toCol =
     (case rd fromRow fromCol of
        Inl e \<Rightarrow> Some (Inl e)
      | Inr None \<Rightarrow> Some (Inr False)
      | Inr (Some piece) \<Rightarrow>
          (case rd toRow toCol of
             Inl e \<Rightarrow> Some (Inl e)
           | Inr targetPiece \<Rightarrow>
               if (case targetPiece of None \<Rightarrow> False | Some t \<Rightarrow> color t = color piece)
               then Some (Inr False)
               else
                 (let rowDiff = \<bar>toRow - fromRow\<bar>; colDiff = \<bar>toCol - fromCol\<bar> in
                  case type piece of
                    Pawn \<Rightarrow> Some (pawnMove rd piece targetPiece fromRow fromCol toRow toCol)
                  | Rook \<Rightarrow>
                      if fromRow = toRow \<or> fromCol = toCol
                      then Some (straightPath rd fromRow fromCol toRow toCol)
                      else Some (Inr False)
                  | Knight \<Rightarrow>
                      Some (Inr ((rowDiff = 2 \<and> colDiff = 1) \<or> (rowDiff = 1 \<and> colDiff = 2)))
                  | Bishop \<Rightarrow>
                      if rowDiff = colDiff
                      then diagonalPath rd fromRow fromCol toRow toCol
                      else Some (Inr False)
                  | Queen \<Rightarrow>
                      if fromRow = toRow \<or> fromCol = toCol \<or> rowDiff = colDiff then
                        (if fromRow = toRow \<or> fromCol = toCol
                         then Some (straightPath rd fromRow fromCol toRow toCol)
                         else diagonalPath rd fromRow fromCol toRow toCol)
                      else Some (Inr False)
                  | King \<Rightarrow> Some (Inr (rowDiff \<le> 1 \<and> colDiff \<le> 1)))))"

definition isValidMove :: "Board \<Rightarrow> int \<Rightarrow> int \<Rightarrow> int \<Rightarrow> int \<Rightarrow> (error + bool) option" where
  "isValidMove board = isValidMoveWith (boardAt board)"

section \<open>\<open>makeAIMove\<close>: collecting the moves and choosing one\<close>

text \<open>
  A move is the quadruple \<open>[fromRow, fromCol, toRow, toCol]\<close> pushed onto \<open>aiMoves\<close>.
\<close>

type_synonym Move = "int \<times> int \<times> int \<times> int"

text \<open>
  \<open>for (let i = 0; i < 8; i++)\<close> runs its body for these indices, in this order.
  \<open>forEach\<close> is such a loop whose body may push moves: its value is the list of
  the moves pushed, in order. An exception thrown by the body ends the loop, and so
  does a body that does not return.
\<close>

definition eightIndices :: "int list" where
  "eightIndices = [0, 1, 2, 3, 4, 5, 6, 7]"

fun forEach :: "int list \<Rightarrow> (int \<Rightarrow> (error + Move list) option) \<Rightarrow> (error + Move list) option" where
  "forEach [] body = Some (Inr [])"
| "forEach (i # rest) body =
     (case body i of
        None \<Rightarrow> None
      | Some (Inl e) \<Rightarrow> Some (Inl e)
      | Some (Inr pushed) \<Rightarrow>
          (case forEach rest body of
             None \<Rightarrow> None
           | Some (Inl e) \<Rightarrow> Some (Inl e)
           | Some (Inr later) \<Rightarrow> Some (Inr (pushed @ later))))"

text \<open>
  The four nested loops of \<open>makeAIMove\<close>. The page compares the colour of the piece
  with the literal \<open>'black'\<close>, the side the machine plays; here the colour is the
  parameter \<open>side\<close>, and \<open>makeAIMove\<close> below passes \<open>Black\<close>.
\<close>

definition aiMoves :: "Board \<Rightarrow> PieceColor \<Rightarrow> (error + Move list) option" where
  "aiMoves board side =
     forEach eightIndices (\<lambda>fromRow.
       forEach eightIndices (\<lambda>fromCol.
         case boardAt board fromRow fromCol of
           Inl e \<Rightarrow> Some (Inl e)
         | Inr piece \<Rightarrow>
             if (case piece of None \<Rightarrow> False | Some p \<Rightarrow> color p = side) then
               forEach eightIndices (\<lambda>toRow.
                 forEach eightIndices (\<lambda>toCol.
                   case isValidMove board fromRow fromCol toRow toCol of
                     None \<Rightarrow> None
                   | Some (Inl e) \<Rightarrow> Some (Inl e)
                   | Some (Inr ok) \<Rightarrow>
                       Some (Inr (if ok then [(fromRow, fromCol, toRow, toCol)] else []))))
             else Some (Inr [])))"

text \<open>
  \<open>randomMove\<close> is \<open>aiMoves[Math.floor(Math.random() * aiMoves.length)]\<close>, taken
  only when the list is not empty; \<open>idx\<close> stands for the index that the random
  draw produced. An index beyond the list would give \<open>undefined\<close>, whose
  destructuring throws. With an empty list no move is made: \<open>Inr None\<close>.
\<close>

definition randomMove :: "Board \<Rightarrow> PieceColor \<Rightarrow> nat \<Rightarrow> (error + Move option) option" where
  "randomMove board side idx =
     (case aiMoves board side of
        None \<Rightarrow> None
      | Some (Inl e) \<Rightarrow> Some (Inl e)
      | Some (Inr moves) \<Rightarrow>
          if length moves > 0 then
            (if idx < length moves then Some (Inr (Some (moves ! idx))) else Some (Inl TypeError))
          else Some (Inr None))"

text \<open>
  For the proofs: the moves that the two inner loops push for one origin when every
  check returns a boolean.
\<close>

definition legalFrom :: "Board \<Rightarrow> int \<Rightarrow> int \<Rightarrow> Move list" where
  "legalFrom board fromRow fromCol =
     concat (map (\<lambda>toRow. concat (map (\<lambda>toCol.
       if isValidMove board fromRow fromCol toRow toCol = Some (Inr True)
       then [(fromRow, fromCol, toRow, toCol)] else []) eightIndices)) eightIndices)"

section \<open>Applying a move\<close>

text \<open>
  Boards are arrays of arrays, and the page updates them in place after copying
  them, so the arrays live in a store: an address is an index into the list of
  objects allocated so far, and allocation appends. A board is the address of an
  array of row addresses.
\<close>

type_synonym addr = nat

datatype obj = RowArray "Piece option list" | BoardArray "addr list"

type_synonym heap = "obj list"

definition rowAt :: "heap \<Rightarrow> addr \<Rightarrow> Piece option list option" where
  "rowAt h a =
     (if a < length h then (case h ! a of RowArray cells \<Rightarrow> Some cells | BoardArray _ \<Rightarrow> None)
      else None)"

definition rowsAt :: "heap \<Rightarrow> addr \<Rightarrow> addr list option" where
  "rowsAt h a =
     (if a < length h then (case h ! a of BoardArray rows \<Rightarrow> Some rows | RowArray _ \<Rightarrow> None)
      else None)"

text \<open>\<open>boardOf\<close> reads the value of a whole board out of the store.\<close>

fun readRows :: "heap \<Rightarrow> addr list \<Rightarrow> Board option" where
  "readRows h [] = Some []"
| "readRows h (a # rest) =
     (case rowAt h a of
        None \<Rightarrow> None
      | Some cells \<Rightarrow> (case readRows h rest of None \<Rightarrow> None | Some below \<Rightarrow> Some (cells # below)))"

definition boardOf :: "heap \<Rightarrow> addr \<Rightarrow> Board option" where
  "boardOf h board = (case rowsAt h board of None \<Rightarrow> None | Some rows \<Rightarrow> readRows h rows)"

text \<open>
  \<open>board.map(row => [...row])\<close>: every row is copied into a fresh array, and the
  copies are collected in a fresh outer array.
\<close>

fun copyRows :: "heap \<Rightarrow> addr list \<Rightarrow> error + heap \<times> addr list" where
  "copyRows h [] = Inr (h, [])"
| "copyRows h (a # rest) =
     (case rowAt h a of
        None \<Rightarrow> Inl TypeError
      | Some cells \<Rightarrow>
          (case copyRows (h @ [RowArray cells]) rest of
             Inl e \<Rightarrow> Inl e
           | Inr (h', copies) \<Rightarrow> Inr (h', length h # copies)))"

definition copyBoard :: "heap \<Rightarrow> addr \<Rightarrow> error + heap \<times> addr" where
  "copyBoard h board =
     (case rowsAt h board of
        None \<Rightarrow> Inl TypeError
      | Some rows \<Rightarrow>
          (case copyRows h rows of
             Inl e \<Rightarrow> Inl e
           | Inr (h', copies) \<Rightarrow> Inr (h' @ [BoardArray copies], length h')))"

text \<open>
  \<open>newBoard[r][c]\<close> read and assigned. A row index outside the outer array throws,
  as in \<open>boardAt\<close>. An assignment to a column outside the row would, in
  JavaScript, grow the row or add a property to it; such rows are not lists of 8
  cells any more, and the model sets the case apart as \<open>OutOfBounds\<close>.
\<close>

definition readCell :: "heap \<Rightarrow> addr \<Rightarrow> int \<Rightarrow> int \<Rightarrow> error + Piece option" where
  "readCell h board r c =
     (case rowsAt h board of
        None \<Rightarrow> Inl TypeError
      | Some rows \<Rightarrow>
          if 0 \<le> r \<and> r < int (length rows) then
            (case rowAt h (rows ! nat r) of
               None \<Rightarrow> Inl TypeError
             | Some cells \<Rightarrow>
                 if 0 \<le> c \<and> c < int (length cells) then Inr (cells ! nat c) else Inr None)
          else Inl TypeError)"

definition writeCell :: "heap \<Rightarrow> addr \<Rightarrow> int \<Rightarrow> int \<Rightarrow> Piece option \<Rightarrow> error + heap" where
  "writeCell h board r c v =
     (case rowsAt h board of
        None \<Rightarrow> Inl TypeError
      | Some rows \<Rightarrow>
          if 0 \<le> r \<and> r < int (length rows) then
            (case rowAt h (rows ! nat r) of
               None \<Rightarrow> Inl TypeError
             | Some cells \<Rightarrow>
                 if 0 \<le> c \<and> c < int (length cells)
                 then Inr (h[rows ! nat r := RowArray (cells[nat c := v])])
                 else Inl OutOfBounds)
          else Inl TypeError)"

text \<open>
  The three statements that \<open>makeAIMove\<close> and \<open>handleSquareClick\<close> share:
  \<^verbatim>\<open>const newBoard = board.map(row => [...row]);\<close>
  \<^verbatim>\<open>newBoard[toRow][toCol] = newBoard[fromRow][fromCol];\<close>
  \<^verbatim>\<open>newBoard[fromRow][fromCol] = null;\<close>
  The result is the store after them and the address of \<open>newBoard\<close>, which the
  page then passes to \<open>setBoard\<close>.
\<close>

definition applyMove :: "heap \<Rightarrow> addr \<Rightarrow> int \<Rightarrow> int \<Rightarrow> int \<Rightarrow> int \<Rightarrow> error + heap \<times> addr" where
  "applyMove h board fromRow fromCol toRow toCol =
     (case copyBoard h board of
        Inl e \<Rightarrow> Inl e
      | Inr (h1, newBoard) \<Rightarrow>
          (case readCell h1 newBoard fromRow fromCol of
             Inl e \<Rightarrow> Inl e
           | Inr moved \<Rightarrow>
               (case writeCell h1 newBoard toRow toCol moved of
                  Inl e \<Rightarrow> Inl e
                | Inr h2 \<Rightarrow>
                    (case writeCell h2 newBoard fromRow fromCol None of
                       Inl e \<Rightarrow> Inl e
                     | Inr h3 \<Rightarrow> Inr (h3, newBoard)))))"

text \<open>
  The body of the timeout callback of \<open>makeAIMove\<close>, as far as the board goes: with
  no move to choose from, the board stays as it is.
\<close>

definition makeAIMove :: "heap \<Rightarrow> addr \<Rightarrow> nat \<Rightarrow> (error + heap \<times> addr) option" where
  "makeAIMove h board idx =
     (case boardOf h board of
        None \<Rightarrow> Some (Inl TypeError)
      | Some bd \<Rightarrow>
          (case randomMove bd Black idx of
             None \<Rightarrow> None
           | Some (Inl e) \<Rightarrow> Some (Inl e)
           | Some (Inr None) \<Rightarrow> Some (Inr (h, board))
           | Some (Inr (Some (fromRow, fromCol, toRow, toCol))) \<Rightarrow>
               Some (applyMove h board fromRow fromCol toRow toCol)))"

text \<open>A store that holds one board and nothing else; the board is at address 8.\<close>

definition heapOf :: "Board \<Rightarrow> heap" where
  "heapOf bd = map RowArray bd @ [BoardArray [0..<length bd]]"

text \<open>
  For the proofs: the value of the board after a move, as two list updates, and the
  layout of a store in which the rows of the board \<open>b\<close> are the objects from
  address \<open>n\<close> on.
\<close>

definition movedBoard :: "Board \<Rightarrow> int \<Rightarrow> int \<Rightarrow> int \<Rightarrow> int \<Rightarrow> Board" where
  "movedBoard bd fromRow fromCol toRow toCol =
     (let placed = bd[nat toRow := (bd ! nat toRow)[nat toCol := bd ! nat fromRow ! nat fromCol]]
      in placed[nat fromRow := (placed ! nat fromRow)[nat fromCol := None]])"

definition ownsRows :: "heap \<Rightarrow> addr \<Rightarrow> addr \<Rightarrow> Board \<Rightarrow> bool" where
  "ownsRows h n b bd =
     (b < length h \<and> h ! b = BoardArray [n..<n + length bd] \<and> n + length bd \<le> b \<and>
      (\<forall>i<length bd. h ! (n + i) = RowArray (bd ! i)))"

section \<open>Notions used by the statements\<close>

text \<open>
  The condition under which the rook, bishop and queen cases enter their path check:
  the first \<open>if\<close> of each case.
\<close>

definition lineGeometry :: "PieceType \<Rightarrow> int \<Rightarrow> int \<Rightarrow> int \<Rightarrow> int \<Rightarrow> bool" where
  "lineGeometry t fromRow fromCol toRow toCol =
     (case t of
        Rook \<Rightarrow> fromRow = toRow \<or> fromCol = toCol
      | Bishop \<Rightarrow> \<bar>toRow - fromRow\<bar> = \<bar>toCol - fromCol\<bar>
      | Queen \<Rightarrow> fromRow = toRow \<or> fromCol = toCol \<or> \<bar>toRow - fromRow\<bar> = \<bar>toCol - fromCol\<bar>
      | _ \<Rightarrow> False)"

section \<open>What the loops compute\<close>

text \<open>
  Each loop returns \<open>true\<close> exactly when every square it visits is empty, provided
  every read on the way succeeds.
\<close>

declare scanRow.simps [simp del] scanCol.simps [simp del]

lemma scanRow_result:
  assumes "\<And>k. c \<le> k \<Longrightarrow> k < endC \<Longrightarrow> \<exists>v. rd row k = Inr v"
  shows "scanRow rd row c endC = Inr (\<forall>k. c \<le> k \<and> k < endC \<longrightarrow> rd row k = Inr None)"
  using assms
proof (induction rd row c endC rule: scanRow.induct)
  case (1 rd fromRow c endC)
  show ?case
  proof (cases "c < endC")
    case False
    then show ?thesis by (auto simp add: scanRow.simps [of rd fromRow c endC])
  next
    case True
    obtain v where v: "rd fromRow c = Inr v"
      using "1.prems" [of c] True by auto
    show ?thesis
    proof (cases v)
      case (Some p)
      have "\<not> (\<forall>k. c \<le> k \<and> k < endC \<longrightarrow> rd fromRow k = Inr None)"
        using True v Some by auto
      then show ?thesis
        using True v Some by (simp add: scanRow.simps [of rd fromRow c endC])
    next
      case None
      have rest: "scanRow rd fromRow (c + 1) endC =
          Inr (\<forall>k. c + 1 \<le> k \<and> k < endC \<longrightarrow> rd fromRow k = Inr None)"
        using "1.IH" [OF True v] None "1.prems" by simp
      have "(\<forall>k. c \<le> k \<and> k < endC \<longrightarrow> rd fromRow k = Inr None) =
            (\<forall>k. c + 1 \<le> k \<and> k < endC \<longrightarrow> rd fromRow k = Inr None)"
      proof -
        have "\<And>k. c \<le> k \<Longrightarrow> k = c \<or> c + 1 \<le> k" by arith
        moreover have "\<And>k. c + 1 \<le> k \<Longrightarrow> c \<le> k" by arith
        ultimately show ?thesis using v None by metis
      qed
      then show ?thesis
        using True v None rest by (simp add: scanRow.simps [of rd fromRow c endC])
    qed
  qed
qed

lemma diagLoop_result:
  assumes dr: "dr = 1 \<or> dr = -1" and dc: "dc = 1 \<or> dc = -1"
    and rd: "\<And>k. k < n \<Longrightarrow> \<exists>v. rd (r + int k * dr) (c + int k * dc) = Inr v"
  shows "diagLoop rd (r + int n * dr) (c + int n * dc) dr dc r c =
         Some (Inr (\<forall>k<n. rd (r + int k * dr) (c + int k * dc) = Inr None))"
  using rd
proof (induction n arbitrary: r c)
  case 0
  show ?case by (simp add: diagLoop.simps [of rd r c dr dc r c])
next
  case (Suc n)
  have ne: "r \<noteq> r + int (Suc n) * dr" "c \<noteq> c + int (Suc n) * dc"
    using dr dc by auto
  have sq: "\<And>k. (r + dr) + int k * dr = r + int (Suc k) * dr"
           "\<And>k. (c + dc) + int k * dc = c + int (Suc k) * dc"
    by (simp_all add: algebra_simps)
  obtain v where v: "rd r c = Inr v"
    using Suc.prems [of 0] by auto
  show ?case
  proof (cases v)
    case (Some p)
    have "\<not> (\<forall>k<Suc n. rd (r + int k * dr) (c + int k * dc) = Inr None)"
      using v Some by (auto intro: exI [of _ 0])
    then show ?thesis
      apply (subst diagLoop.simps)
      using ne v Some apply simp
      done
  next
    case None
    have "\<And>k. k < n \<Longrightarrow> \<exists>v. rd ((r + dr) + int k * dr) ((c + dc) + int k * dc) = Inr v"
      using Suc.prems sq by (metis Suc_less_eq)
    from Suc.IH [OF this]
    have rest: "diagLoop rd (r + int (Suc n) * dr) (c + int (Suc n) * dc) dr dc (r + dr) (c + dc) =
        Some (Inr (\<forall>k<n. rd (r + int (Suc k) * dr) (c + int (Suc k) * dc) = Inr None))"
      unfolding sq .
    have step: "diagLoop rd (r + int (Suc n) * dr) (c + int (Suc n) * dc) dr dc r c =
        diagLoop rd (r + int (Suc n) * dr) (c + int (Suc n) * dc) dr dc (r + dr) (c + dc)"
      apply (subst diagLoop.simps)
      using ne v None apply simp
      done
    have "(\<forall>k<Suc n. rd (r + int k * dr) (c + int k * dc) = Inr None) =
          (\<forall>k<n. rd (r + int (Suc k) * dr) (c + int (Suc k) * dc) = Inr None)"
      (is "?L = ?R")
    proof
      assume ?L then show ?R by (metis Suc_less_eq)
    next
      assume R: ?R
      show ?L
      proof (intro allI impI)
        fix k assume "k < Suc n"
        then show "rd (r + int k * dr) (c + int k * dc) = Inr None"
          using R v None by (cases k) auto
      qed
    qed
    then show ?thesis
      by (simp only: step rest)
  qed
qed

lemma scanCol_result:
  assumes "\<And>k. r \<le> k \<Longrightarrow> k < endR \<Longrightarrow> \<exists>v. rd k col = Inr v"
  shows "scanCol rd col r endR = Inr (\<forall>k. r \<le> k \<and> k < endR \<longrightarrow> rd k col = Inr None)"
  using assms
proof (induction rd col r endR rule: scanCol.induct)
  case (1 rd fromCol r endR)
  show ?case
  proof (cases "r < endR")
    case False
    then show ?thesis by (auto simp add: scanCol.simps [of rd fromCol r endR])
  next
    case True
    obtain v where v: "rd r fromCol = Inr v"
      using "1.prems" [of r] True by auto
    show ?thesis
    proof (cases v)
      case (Some p)
      have "\<not> (\<forall>k. r \<le> k \<and> k < endR \<longrightarrow> rd k fromCol = Inr None)"
        using True v Some by auto
      then show ?thesis
        using True v Some by (simp add: scanCol.simps [of rd fromCol r endR])
    next
      case None
      have rest: "scanCol rd fromCol (r + 1) endR =
          Inr (\<forall>k. r + 1 \<le> k \<and> k < endR \<longrightarrow> rd k fromCol = Inr None)"
        using "1.IH" [OF True v] None "1.prems" by simp
      have "(\<forall>k. r \<le> k \<and> k < endR \<longrightarrow> rd k fromCol = Inr None) =
            (\<forall>k. r + 1 \<le> k \<and> k < endR \<longrightarrow> rd k fromCol = Inr None)"
      proof -
        have "\<And>k. r \<le> k \<Longrightarrow> k = r \<or> r + 1 \<le> k" by arith
        moreover have "\<And>k. r + 1 \<le> k \<Longrightarrow> r \<le> k" by arith
        ultimately show ?thesis using v None by metis
      qed
      then show ?thesis
        using True v None rest by (simp add: scanCol.simps [of rd fromCol r endR])
    qed
  qed
qed

lemma all_between_up:
  "(\<forall>j::int. a + 1 \<le> j \<and> j < b \<longrightarrow> P j) = (\<forall>k. 0 < k \<and> k < b - a \<longrightarrow> P (a + k))"
proof
  assume L: "\<forall>j. a + 1 \<le> j \<and> j < b \<longrightarrow> P j"
  show "\<forall>k. 0 < k \<and> k < b - a \<longrightarrow> P (a + k)"
  proof (intro allI impI)
    fix k assume "0 < k \<and> k < b - a"
    then have "a + 1 \<le> a + k \<and> a + k < b" by arith
    with L show "P (a + k)" by blast
  qed
next
  assume R: "\<forall>k. 0 < k \<and> k < b - a \<longrightarrow> P (a + k)"
  show "\<forall>j. a + 1 \<le> j \<and> j < b \<longrightarrow> P j"
  proof (intro allI impI)
    fix j assume "a + 1 \<le> j \<and> j < b"
    then have "0 < j - a \<and> j - a < b - a" by arith
    with R have "P (a + (j - a))" by blast
    then show "P j" by simp
  qed
qed

lemma all_between_down:
  "(\<forall>j::int. a + 1 \<le> j \<and> j < b \<longrightarrow> P j) = (\<forall>k. 0 < k \<and> k < b - a \<longrightarrow> P (b - k))"
proof
  assume L: "\<forall>j. a + 1 \<le> j \<and> j < b \<longrightarrow> P j"
  show "\<forall>k. 0 < k \<and> k < b - a \<longrightarrow> P (b - k)"
  proof (intro allI impI)
    fix k assume "0 < k \<and> k < b - a"
    then have "a + 1 \<le> b - k \<and> b - k < b" by arith
    with L show "P (b - k)" by blast
  qed
next
  assume R: "\<forall>k. 0 < k \<and> k < b - a \<longrightarrow> P (b - k)"
  show "\<forall>j. a + 1 \<le> j \<and> j < b \<longrightarrow> P j"
  proof (intro allI impI)
    fix j assume "a + 1 \<le> j \<and> j < b"
    then have "0 < b - j \<and> b - j < b - a" by arith
    with R have "P (b - (b - j))" by blast
    then show "P j" by simp
  qed
qed

lemma all_nat_steps:
  "(\<forall>k<m. P (int k + 1)) = (\<forall>j::int. 0 < j \<and> j < int m + 1 \<longrightarrow> P j)"
proof
  assume L: "\<forall>k<m. P (int k + 1)"
  show "\<forall>j::int. 0 < j \<and> j < int m + 1 \<longrightarrow> P j"
  proof (intro allI impI)
    fix j :: int assume j: "0 < j \<and> j < int m + 1"
    then have "nat (j - 1) < m" by arith
    with L have "P (int (nat (j - 1)) + 1)" by blast
    then show "P j" using j by simp
  qed
next
  assume R: "\<forall>j::int. 0 < j \<and> j < int m + 1 \<longrightarrow> P j"
  show "\<forall>k<m. P (int k + 1)"
  proof (intro allI impI)
    fix k assume "k < m"
    then have "0 < int k + 1 \<and> int k + 1 < int m + 1" by arith
    with R show "P (int k + 1)" by blast
  qed
qed

text \<open>
  The squares strictly between origin and destination are numbered from the origin:
  square \<open>k\<close> is \<open>k\<close> steps away, for \<open>0 < k < max |toRow - fromRow| |toCol - fromCol|\<close>.
  When every one of them can be read, each path check returns whether all are empty.
\<close>

lemma straightPath_result:
  assumes geo: "fromRow = toRow \<or> fromCol = toCol"
    and rd: "\<And>k. 0 < k \<Longrightarrow> k < max \<bar>toRow - fromRow\<bar> \<bar>toCol - fromCol\<bar> \<Longrightarrow>
               \<exists>v. rd (fromRow + k * sgn (toRow - fromRow)) (fromCol + k * sgn (toCol - fromCol)) = Inr v"
  shows "straightPath rd fromRow fromCol toRow toCol =
         Inr (\<forall>k. 0 < k \<and> k < max \<bar>toRow - fromRow\<bar> \<bar>toCol - fromCol\<bar> \<longrightarrow>
                rd (fromRow + k * sgn (toRow - fromRow)) (fromCol + k * sgn (toCol - fromCol)) = Inr None)"
proof (cases "fromRow = toRow")
  case True
  show ?thesis
  proof (cases "fromCol < toCol")
    case lt: True
    have rd': "\<forall>k. 0 < k \<and> k < toCol - fromCol \<longrightarrow> (\<exists>v. rd fromRow (fromCol + k) = Inr v)"
      using rd True lt by (auto simp: sgn_if)
    then have "\<forall>j. fromCol + 1 \<le> j \<and> j < toCol \<longrightarrow> (\<exists>v. rd fromRow j = Inr v)"
      by (simp only: all_between_up)
    then have "scanRow rd fromRow (fromCol + 1) toCol =
        Inr (\<forall>j. fromCol + 1 \<le> j \<and> j < toCol \<longrightarrow> rd fromRow j = Inr None)"
      by (intro scanRow_result) blast
    then show ?thesis
      using True lt by (simp add: straightPath_def all_between_up sgn_if)
  next
    case ge: False
    have rd': "\<forall>k. 0 < k \<and> k < fromCol - toCol \<longrightarrow> (\<exists>v. rd fromRow (fromCol - k) = Inr v)"
      using rd True ge by (auto simp: sgn_if)
    then have "\<forall>j. toCol + 1 \<le> j \<and> j < fromCol \<longrightarrow> (\<exists>v. rd fromRow j = Inr v)"
      by (simp only: all_between_down)
    then have "scanRow rd fromRow (toCol + 1) fromCol =
        Inr (\<forall>j. toCol + 1 \<le> j \<and> j < fromCol \<longrightarrow> rd fromRow j = Inr None)"
      by (intro scanRow_result) blast
    then show ?thesis
      using True ge by (auto simp add: straightPath_def all_between_down sgn_if)
  qed
next
  case False
  then have col: "fromCol = toCol" using geo by simp
  show ?thesis
  proof (cases "fromRow < toRow")
    case lt: True
    have rd': "\<forall>k. 0 < k \<and> k < toRow - fromRow \<longrightarrow> (\<exists>v. rd (fromRow + k) fromCol = Inr v)"
      using rd col lt by (auto simp: sgn_if)
    then have "\<forall>j. fromRow + 1 \<le> j \<and> j < toRow \<longrightarrow> (\<exists>v. rd j fromCol = Inr v)"
      by (simp only: all_between_up)
    then have "scanCol rd fromCol (fromRow + 1) toRow =
        Inr (\<forall>j. fromRow + 1 \<le> j \<and> j < toRow \<longrightarrow> rd j fromCol = Inr None)"
      by (intro scanCol_result) blast
    then show ?thesis
      using False col lt by (simp add: straightPath_def all_between_up sgn_if)
  next
    case ge: False
    have rd': "\<forall>k. 0 < k \<and> k < fromRow - toRow \<longrightarrow> (\<exists>v. rd (fromRow - k) fromCol = Inr v)"
      using rd col ge False by (auto simp: sgn_if)
    then have "\<forall>j. toRow + 1 \<le> j \<and> j < fromRow \<longrightarrow> (\<exists>v. rd j fromCol = Inr v)"
      by (simp only: all_between_down)
    then have "scanCol rd fromCol (toRow + 1) fromRow =
        Inr (\<forall>j. toRow + 1 \<le> j \<and> j < fromRow \<longrightarrow> rd j fromCol = Inr None)"
      by (intro scanCol_result) blast
    then show ?thesis
      using False col ge by (auto simp add: straightPath_def all_between_down sgn_if)
  qed
qed

lemma diagonalPath_result:
  assumes geo: "\<bar>toRow - fromRow\<bar> = \<bar>toCol - fromCol\<bar>" and ne: "toRow \<noteq> fromRow"
    and rd: "\<And>k. 0 < k \<Longrightarrow> k < max \<bar>toRow - fromRow\<bar> \<bar>toCol - fromCol\<bar> \<Longrightarrow>
               \<exists>v. rd (fromRow + k * sgn (toRow - fromRow)) (fromCol + k * sgn (toCol - fromCol)) = Inr v"
  shows "diagonalPath rd fromRow fromCol toRow toCol =
         Some (Inr (\<forall>k. 0 < k \<and> k < max \<bar>toRow - fromRow\<bar> \<bar>toCol - fromCol\<bar> \<longrightarrow>
                rd (fromRow + k * sgn (toRow - fromRow)) (fromCol + k * sgn (toCol - fromCol)) = Inr None))"
proof -
  define dr where "dr = sgn (toRow - fromRow)"
  define dc where "dc = sgn (toCol - fromCol)"
  define m where "m = nat (\<bar>toRow - fromRow\<bar> - 1)"
  have nec: "toCol \<noteq> fromCol" using geo ne by auto
  have dr: "dr = (if toRow > fromRow then 1 else -1)"
    using ne by (simp add: dr_def sgn_if)
  have dc: "dc = (if toCol > fromCol then 1 else -1)"
    using nec by (simp add: dc_def sgn_if)
  have dr1: "dr = 1 \<or> dr = -1" and dc1: "dc = 1 \<or> dc = -1"
    by (simp_all add: dr dc)
  have m: "int m + 1 = \<bar>toRow - fromRow\<bar>" "int m + 1 = \<bar>toCol - fromCol\<bar>"
    using ne geo by (simp_all add: m_def)
  have mx: "max \<bar>toRow - fromRow\<bar> \<bar>toCol - fromCol\<bar> = int m + 1"
    using m by simp
  have tr: "toRow = (fromRow + dr) + int m * dr"
  proof -
    have "(fromRow + dr) + int m * dr = fromRow + (int m + 1) * dr"
      by (simp add: algebra_simps)
    also have "\<dots> = fromRow + \<bar>toRow - fromRow\<bar> * sgn (toRow - fromRow)"
      by (simp only: m(1) dr_def)
    also have "\<dots> = toRow" by (simp add: sgn_if)
    finally show ?thesis by simp
  qed
  have tc: "toCol = (fromCol + dc) + int m * dc"
  proof -
    have "(fromCol + dc) + int m * dc = fromCol + (int m + 1) * dc"
      by (simp add: algebra_simps)
    also have "\<dots> = fromCol + \<bar>toCol - fromCol\<bar> * sgn (toCol - fromCol)"
      by (simp only: m(2) dc_def)
    also have "\<dots> = toCol" by (simp add: sgn_if)
    finally show ?thesis by simp
  qed
  have sq: "\<And>k. (fromRow + dr) + int k * dr = fromRow + (int k + 1) * dr"
           "\<And>k. (fromCol + dc) + int k * dc = fromCol + (int k + 1) * dc"
    by (simp_all add: algebra_simps)
  have readable: "\<And>k. k < m \<Longrightarrow>
      \<exists>v. rd ((fromRow + dr) + int k * dr) ((fromCol + dc) + int k * dc) = Inr v"
  proof -
    fix k assume "k < m"
    then have "0 < int k + 1" "int k + 1 < max \<bar>toRow - fromRow\<bar> \<bar>toCol - fromCol\<bar>"
      unfolding mx by simp_all
    from rd [OF this]
    have "\<exists>v. rd (fromRow + (int k + 1) * dr) (fromCol + (int k + 1) * dc) = Inr v"
      unfolding dr_def dc_def .
    then show "\<exists>v. rd ((fromRow + dr) + int k * dr) ((fromCol + dc) + int k * dc) = Inr v"
      unfolding sq .
  qed
  have "diagLoop rd ((fromRow + dr) + int m * dr) ((fromCol + dc) + int m * dc) dr dc
          (fromRow + dr) (fromCol + dc) =
        Some (Inr (\<forall>k<m. rd ((fromRow + dr) + int k * dr) ((fromCol + dc) + int k * dc) = Inr None))"
    using dr1 dc1 readable
    by (rule diagLoop_result [of dr dc m rd "fromRow + dr" "fromCol + dc"])
  then have loop: "diagLoop rd toRow toCol dr dc (fromRow + dr) (fromCol + dc) =
        Some (Inr (\<forall>k<m. rd (fromRow + (int k + 1) * dr) (fromCol + (int k + 1) * dc) = Inr None))"
    unfolding sq using tr tc unfolding sq by simp
  have "diagonalPath rd fromRow fromCol toRow toCol =
        diagLoop rd toRow toCol dr dc (fromRow + dr) (fromCol + dc)"
    by (simp add: diagonalPath_def Let_def dr dc)
  also note loop
  also have "(\<forall>k<m. rd (fromRow + (int k + 1) * dr) (fromCol + (int k + 1) * dc) = Inr None) =
      (\<forall>j. 0 < j \<and> j < int m + 1 \<longrightarrow> rd (fromRow + j * dr) (fromCol + j * dc) = Inr None)"
    by (rule all_nat_steps [of m "\<lambda>j. rd (fromRow + j * dr) (fromCol + j * dc) = Inr None"])
  finally show ?thesis
    unfolding mx dr_def dc_def .
qed

lemma boardAt_inRange:
  assumes "wfBoard board" "inRange r c"
  shows "boardAt board r c = Inr (board ! nat r ! nat c)"
proof -
  have "nat r < length board" using assms by (auto simp add: wfBoard_def inRange_def)
  then have "length (board ! nat r) = 8"
    using assms(1) by (simp add: wfBoard_def list_all_length)
  then show ?thesis using assms by (auto simp add: boardAt_def wfBoard_def inRange_def)
qed

lemma boardAtChecked_inRange:
  assumes "wfBoard board" "inRange r c"
  shows "boardAtChecked board r c = Inr (board ! nat r ! nat c)"
proof -
  have "nat r < length board" using assms by (auto simp add: wfBoard_def inRange_def)
  then have "length (board ! nat r) = 8"
    using assms(1) by (simp add: wfBoard_def list_all_length)
  then show ?thesis using assms by (auto simp add: boardAtChecked_def wfBoard_def inRange_def)
qed

lemma path_inRange:
  assumes "inRange fromRow fromCol" "inRange toRow toCol"
    and "0 < k" "k < max \<bar>toRow - fromRow\<bar> \<bar>toCol - fromCol\<bar>"
    and "fromRow = toRow \<or> fromCol = toCol \<or> \<bar>toRow - fromRow\<bar> = \<bar>toCol - fromCol\<bar>"
  shows "inRange (fromRow + k * sgn (toRow - fromRow)) (fromCol + k * sgn (toCol - fromCol))"
  using assms by (auto simp: inRange_def sgn_if split: if_splits)

section \<open>What \<open>isValidMove\<close> returns\<close>

lemma isValidMoveWith_empty_origin:
  "rd fromRow fromCol = Inr None \<Longrightarrow> isValidMoveWith rd fromRow fromCol toRow toCol = Some (Inr False)"
  by (auto simp add: isValidMoveWith_def)

lemma isValidMoveWith_same_color:
  "rd fromRow fromCol = Inr (Some p) \<Longrightarrow> rd toRow toCol = Inr (Some q) \<Longrightarrow> color q = color p \<Longrightarrow>
   isValidMoveWith rd fromRow fromCol toRow toCol = Some (Inr False)"
  by (auto simp add: isValidMoveWith_def)

lemma isValidMoveWith_slide:
  assumes origin: "rd fromRow fromCol = Inr (Some p)"
    and target: "rd toRow toCol = Inr t"
    and other: "\<And>q. t = Some q \<Longrightarrow> color q \<noteq> color p"
    and geo: "lineGeometry (type p) fromRow fromCol toRow toCol"
    and rd: "\<And>k. 0 < k \<Longrightarrow> k < max \<bar>toRow - fromRow\<bar> \<bar>toCol - fromCol\<bar> \<Longrightarrow>
               \<exists>v. rd (fromRow + k * sgn (toRow - fromRow)) (fromCol + k * sgn (toCol - fromCol)) = Inr v"
  shows "isValidMoveWith rd fromRow fromCol toRow toCol =
         Some (Inr (\<forall>k. 0 < k \<and> k < max \<bar>toRow - fromRow\<bar> \<bar>toCol - fromCol\<bar> \<longrightarrow>
                rd (fromRow + k * sgn (toRow - fromRow)) (fromCol + k * sgn (toCol - fromCol)) = Inr None))"
proof -
  let ?clear = "\<forall>k. 0 < k \<and> k < max \<bar>toRow - fromRow\<bar> \<bar>toCol - fromCol\<bar> \<longrightarrow>
                rd (fromRow + k * sgn (toRow - fromRow)) (fromCol + k * sgn (toCol - fromCol)) = Inr None"
  have notsame: "\<not> (case t of None \<Rightarrow> False | Some q \<Rightarrow> color q = color p)"
    using other by (cases t) auto
  have moved: "\<not> (fromRow = toRow \<and> fromCol = toCol)"
  proof
    assume "fromRow = toRow \<and> fromCol = toCol"
    then have "t = Some p" using origin target by simp
    then show False using other by blast
  qed
  have S: "straightPath rd fromRow fromCol toRow toCol = Inr ?clear"
    if "fromRow = toRow \<or> fromCol = toCol"
    using that rd by (rule straightPath_result)
  have D: "diagonalPath rd fromRow fromCol toRow toCol = Some (Inr ?clear)"
    if "\<bar>toRow - fromRow\<bar> = \<bar>toCol - fromCol\<bar>" "toRow \<noteq> fromRow"
    using that rd by (rule diagonalPath_result)
  show ?thesis
  proof (cases "type p")
    case Rook
    then have g: "fromRow = toRow \<or> fromCol = toCol"
      using geo by (simp add: lineGeometry_def)
    show ?thesis
      using origin target notsame Rook g S [OF g] by (auto simp add: isValidMoveWith_def Let_def)
  next
    case Bishop
    then have g: "\<bar>toRow - fromRow\<bar> = \<bar>toCol - fromCol\<bar>"
      using geo by (simp add: lineGeometry_def)
    then have ne: "toRow \<noteq> fromRow" using moved by auto
    show ?thesis
      using origin target notsame Bishop g D [OF g ne] by (auto simp add: isValidMoveWith_def Let_def)
  next
    case Queen
    show ?thesis
    proof (cases "fromRow = toRow \<or> fromCol = toCol")
      case True
      show ?thesis
        using origin target notsame Queen True S [OF True]
        by (auto simp add: isValidMoveWith_def Let_def)
    next
      case False
      then have g: "\<bar>toRow - fromRow\<bar> = \<bar>toCol - fromCol\<bar>"
        using geo Queen by (simp add: lineGeometry_def)
      have ne: "toRow \<noteq> fromRow" using False by auto
      show ?thesis
        using origin target notsame Queen False g D [OF g ne]
        by (auto simp add: isValidMoveWith_def Let_def)
    qed
  qed (use geo in \<open>simp_all add: lineGeometry_def\<close>)
qed

lemma pawnMove_total:
  assumes rdok: "\<And>r c. inRange r c \<Longrightarrow> \<exists>v. rd r c = Inr v"
    and "inRange fromRow fromCol"
  shows "\<exists>ok. pawnMove rd p t fromRow fromCol toRow toCol = Inr ok"
proof (cases "fromRow = startRow (color p)")
  case True
  then have "inRange (fromRow + direction (color p)) fromCol"
    using assms(2) by (simp add: inRange_def startRow_def direction_def)
  then obtain v where "rd (fromRow + direction (color p)) fromCol = Inr v"
    using rdok by blast
  then show ?thesis by (auto simp add: pawnMove_def Let_def)
next
  case False
  then show ?thesis by (auto simp add: pawnMove_def Let_def)
qed

lemma isValidMoveWith_total:
  assumes rdok: "\<And>r c. inRange r c \<Longrightarrow> \<exists>v. rd r c = Inr v"
    and origin: "inRange fromRow fromCol" and target: "inRange toRow toCol"
  shows "\<exists>ok. isValidMoveWith rd fromRow fromCol toRow toCol = Some (Inr ok)"
proof -
  obtain v where v: "rd fromRow fromCol = Inr v" using rdok origin by blast
  obtain t where t: "rd toRow toCol = Inr t" using rdok target by blast
  show ?thesis
  proof (cases v)
    case None
    then show ?thesis using v by (auto simp add: isValidMoveWith_def)
  next
    case (Some p)
    show ?thesis
    proof (cases "case t of None \<Rightarrow> False | Some q \<Rightarrow> color q = color p")
      case True
      then show ?thesis using v t Some by (auto simp add: isValidMoveWith_def)
    next
      case False
      then have other: "\<And>q. t = Some q \<Longrightarrow> color q \<noteq> color p" by auto
      have readable: "\<exists>v. rd (fromRow + k * sgn (toRow - fromRow)) (fromCol + k * sgn (toCol - fromCol)) = Inr v"
        if "lineGeometry (type p) fromRow fromCol toRow toCol"
          "0 < k" "k < max \<bar>toRow - fromRow\<bar> \<bar>toCol - fromCol\<bar>" for k
      proof -
        have "fromRow = toRow \<or> fromCol = toCol \<or> \<bar>toRow - fromRow\<bar> = \<bar>toCol - fromCol\<bar>"
          using that(1) by (cases "type p") (auto simp: lineGeometry_def)
        then show ?thesis using rdok path_inRange [OF origin target that(2,3)] by blast
      qed
      have slide: "\<exists>ok. isValidMoveWith rd fromRow fromCol toRow toCol = Some (Inr ok)"
        if "lineGeometry (type p) fromRow fromCol toRow toCol"
        using isValidMoveWith_slide [of rd fromRow fromCol p toRow toCol t]
          v t Some other that readable by blast
      show ?thesis
      proof (cases "lineGeometry (type p) fromRow fromCol toRow toCol")
        case True
        then show ?thesis by (rule slide)
      next
        case nogeo: False
        show ?thesis
        proof (cases "type p")
          case Pawn
          obtain ok where "pawnMove rd p t fromRow fromCol toRow toCol = Inr ok"
            using pawnMove_total [of rd fromRow fromCol p t toRow toCol] rdok origin by blast
          then show ?thesis using v t Some False Pawn by (auto simp add: isValidMoveWith_def Let_def)
        next
          case Rook
          then show ?thesis using v t Some False nogeo
            by (auto simp add: isValidMoveWith_def Let_def lineGeometry_def)
        next
          case Bishop
          then show ?thesis using v t Some False nogeo
            by (auto simp add: isValidMoveWith_def Let_def lineGeometry_def)
        next
          case Queen
          then show ?thesis using v t Some False nogeo
            by (auto simp add: isValidMoveWith_def Let_def lineGeometry_def)
        next
          case Knight
          then show ?thesis using v t Some False by (auto simp add: isValidMoveWith_def Let_def)
        next
          case King
          then show ?thesis using v t Some False by (auto simp add: isValidMoveWith_def Let_def)
        qed
      qed
    qed
  qed
qed

lemma isValidMoveWith_pawn:
  assumes "rd fromRow fromCol = Inr (Some p)" "type p = Pawn" "rd toRow toCol = Inr t"
    and "\<And>q. t = Some q \<Longrightarrow> color q \<noteq> color p"
  shows "isValidMoveWith rd fromRow fromCol toRow toCol =
         Some (pawnMove rd p t fromRow fromCol toRow toCol)"
  using assms by (cases t) (simp_all add: isValidMoveWith_def)

text \<open>
  Two reads that agree on the squares of the board give the same result for an
  origin and a destination within the board.
\<close>

lemma isValidMoveWith_agree:
  assumes agree: "\<And>r c. inRange r c \<Longrightarrow> rd r c = rd' r c"
    and rdok: "\<And>r c. inRange r c \<Longrightarrow> \<exists>v. rd r c = Inr v"
    and origin: "inRange fromRow fromCol" and target: "inRange toRow toCol"
  shows "isValidMoveWith rd fromRow fromCol toRow toCol = isValidMoveWith rd' fromRow fromCol toRow toCol"
proof -
  obtain v where v: "rd fromRow fromCol = Inr v" using rdok origin by blast
  obtain t where t: "rd toRow toCol = Inr t" using rdok target by blast
  have v': "rd' fromRow fromCol = Inr v" using v agree [OF origin] by simp
  have t': "rd' toRow toCol = Inr t" using t agree [OF target] by simp
  show ?thesis
  proof (cases v)
    case None
    then show ?thesis using v v' by (simp add: isValidMoveWith_def)
  next
    case (Some p)
    show ?thesis
    proof (cases "case t of None \<Rightarrow> False | Some q \<Rightarrow> color q = color p")
      case True
      then show ?thesis using v v' t t' Some by (simp add: isValidMoveWith_def)
    next
      case False
      then have other: "\<And>q. t = Some q \<Longrightarrow> color q \<noteq> color p" by auto
      show ?thesis
      proof (cases "lineGeometry (type p) fromRow fromCol toRow toCol")
        case True
        then have line: "fromRow = toRow \<or> fromCol = toCol \<or> \<bar>toRow - fromRow\<bar> = \<bar>toCol - fromCol\<bar>"
          by (cases "type p") (auto simp: lineGeometry_def)
        have on: "inRange (fromRow + k * sgn (toRow - fromRow)) (fromCol + k * sgn (toCol - fromCol))"
          if "0 < k" "k < max \<bar>toRow - fromRow\<bar> \<bar>toCol - fromCol\<bar>" for k
          using path_inRange [OF origin target that line] .
        have readable: "\<exists>v. rd (fromRow + k * sgn (toRow - fromRow)) (fromCol + k * sgn (toCol - fromCol)) = Inr v"
          if "0 < k" "k < max \<bar>toRow - fromRow\<bar> \<bar>toCol - fromCol\<bar>" for k
          using rdok on [OF that] by blast
        have readable': "\<exists>v. rd' (fromRow + k * sgn (toRow - fromRow)) (fromCol + k * sgn (toCol - fromCol)) = Inr v"
          if "0 < k" "k < max \<bar>toRow - fromRow\<bar> \<bar>toCol - fromCol\<bar>" for k
          using readable [OF that] agree [OF on [OF that]] by simp
        have same: "(\<forall>k. 0 < k \<and> k < max \<bar>toRow - fromRow\<bar> \<bar>toCol - fromCol\<bar> \<longrightarrow>
              rd (fromRow + k * sgn (toRow - fromRow)) (fromCol + k * sgn (toCol - fromCol)) = Inr None) =
            (\<forall>k. 0 < k \<and> k < max \<bar>toRow - fromRow\<bar> \<bar>toCol - fromCol\<bar> \<longrightarrow>
              rd' (fromRow + k * sgn (toRow - fromRow)) (fromCol + k * sgn (toCol - fromCol)) = Inr None)"
          using agree on by auto
        have a: "isValidMoveWith rd fromRow fromCol toRow toCol =
            Some (Inr (\<forall>k. 0 < k \<and> k < max \<bar>toRow - fromRow\<bar> \<bar>toCol - fromCol\<bar> \<longrightarrow>
              rd (fromRow + k * sgn (toRow - fromRow)) (fromCol + k * sgn (toCol - fromCol)) = Inr None))"
          using v [unfolded Some] t other True readable by (rule isValidMoveWith_slide)
        have b: "isValidMoveWith rd' fromRow fromCol toRow toCol =
            Some (Inr (\<forall>k. 0 < k \<and> k < max \<bar>toRow - fromRow\<bar> \<bar>toCol - fromCol\<bar> \<longrightarrow>
              rd' (fromRow + k * sgn (toRow - fromRow)) (fromCol + k * sgn (toCol - fromCol)) = Inr None))"
          using v' [unfolded Some] t' other True readable' by (rule isValidMoveWith_slide)
        show ?thesis unfolding a b using same by simp
      next
        case nogeo: False
        show ?thesis
        proof (cases "type p")
          case Pawn
          have "pawnMove rd p t fromRow fromCol toRow toCol = pawnMove rd' p t fromRow fromCol toRow toCol"
          proof (cases "fromRow = startRow (color p)")
            case True
            then have "inRange (fromRow + direction (color p)) fromCol"
              using origin by (simp add: inRange_def startRow_def direction_def)
            then have "rd (fromRow + direction (color p)) fromCol = rd' (fromRow + direction (color p)) fromCol"
              by (rule agree)
            then show ?thesis by (simp only: pawnMove_def)
          next
            case False
            then show ?thesis by (simp add: pawnMove_def Let_def)
          qed
          moreover have "isValidMoveWith rd fromRow fromCol toRow toCol =
              Some (pawnMove rd p t fromRow fromCol toRow toCol)"
            using v [unfolded Some] Pawn t other by (rule isValidMoveWith_pawn)
          moreover have "isValidMoveWith rd' fromRow fromCol toRow toCol =
              Some (pawnMove rd' p t fromRow fromCol toRow toCol)"
            using v' [unfolded Some] Pawn t' other by (rule isValidMoveWith_pawn)
          ultimately show ?thesis by simp
        qed (use v v' t t' Some False nogeo in
              \<open>auto simp add: isValidMoveWith_def Let_def lineGeometry_def\<close>)
      qed
    qed
  qed
qed

section \<open>The rules of \<open>isValidMove\<close>\<close>

text \<open>The definitions a concrete position unfolds to.\<close>

lemmas board_simps = boardAt_def boardAtChecked_def sampleBoard_def initialBoard_def blackBackRank_def
  whiteBackRank_def emptyRow_def pawnRow_def wfBoard_def inRange_def

text \<open>
  C9. On an 8 by 8 board, for an origin and a destination within the board, the
  check of a move from an empty origin square returns \<open>false\<close>: it returns, and
  does not throw.
\<close>

theorem empty_origin_is_rejected:
  assumes "wfBoard board" "inRange fromRow fromCol" "inRange toRow toCol"
    and "boardAt board fromRow fromCol = Inr None"
  shows "isValidMove board fromRow fromCol toRow toCol = Some (Inr False)"
  using assms(4) unfolding isValidMove_def by (rule isValidMoveWith_empty_origin)

theorem empty_origin_is_rejected_witness:
  "wfBoard sampleBoard \<and> inRange 4 4 \<and> inRange 0 3 \<and> boardAt sampleBoard 4 4 = Inr None \<and>
   isValidMove sampleBoard 4 4 0 3 = Some (Inr False)"
proof -
  have h: "wfBoard sampleBoard" "inRange 4 4" "inRange 0 3" "boardAt sampleBoard 4 4 = Inr None"
    by (simp_all add: board_simps)
  show ?thesis using h empty_origin_is_rejected [OF h] by simp
qed

text \<open>
  C2. Whatever piece stands on the origin, a move onto a square holding a piece of
  the same colour is rejected. A square that holds a piece is within the board, so
  no bound on the coordinates is assumed.
\<close>

theorem same_color_destination_is_rejected:
  assumes "boardAt board fromRow fromCol = Inr (Some p)"
    and "boardAt board toRow toCol = Inr (Some q)"
    and "color q = color p"
  shows "isValidMove board fromRow fromCol toRow toCol = Some (Inr False)"
  using assms unfolding isValidMove_def by (rule isValidMoveWith_same_color)

theorem same_color_destination_is_rejected_witness:
  "boardAt sampleBoard 7 0 = Inr (Some \<lparr>type = Rook, color = White\<rparr>) \<and>
   boardAt sampleBoard 6 0 = Inr (Some \<lparr>type = Pawn, color = White\<rparr>) \<and>
   color \<lparr>type = Pawn, color = White\<rparr> = color \<lparr>type = Rook, color = White\<rparr> \<and>
   isValidMove sampleBoard 7 0 6 0 = Some (Inr False)"
proof -
  have h: "boardAt sampleBoard 7 0 = Inr (Some \<lparr>type = Rook, color = White\<rparr>)"
    "boardAt sampleBoard 6 0 = Inr (Some \<lparr>type = Pawn, color = White\<rparr>)"
    "color \<lparr>type = Pawn, color = White\<rparr> = color \<lparr>type = Rook, color = White\<rparr>"
    by (simp_all add: board_simps)
  show ?thesis using h same_color_destination_is_rejected [OF h] by simp
qed

text \<open>
  C1, as claimed, fails: in the starting position the move of the white rook of
  square (7, 0) onto its own square is not accepted, nor is that of the black queen
  of square (0, 3).
\<close>

theorem null_move_counterexample:
  "boardAt initialBoard 7 0 = Inr (Some \<lparr>type = Rook, color = White\<rparr>) \<and>
   isValidMove initialBoard 7 0 7 0 = Some (Inr False) \<and>
   boardAt initialBoard 0 3 = Inr (Some \<lparr>type = Queen, color = Black\<rparr>) \<and>
   isValidMove initialBoard 0 3 0 3 = Some (Inr False)"
  by (simp add: isValidMove_def isValidMoveWith_def board_simps)

text \<open>
  C1, amended. The move of a piece onto its own square is rejected, for every piece
  on every board: the destination then holds the moving piece itself, which has the
  mover's colour, and the check returns \<open>false\<close> before it looks at the kind of
  the piece.
\<close>

theorem null_move_is_rejected:
  assumes "boardAt board fromRow fromCol = Inr (Some p)"
  shows "isValidMove board fromRow fromCol fromRow fromCol = Some (Inr False)"
  using assms assms unfolding isValidMove_def by (rule isValidMoveWith_same_color) simp

theorem null_move_is_rejected_witness:
  "boardAt sampleBoard 0 3 = Inr (Some \<lparr>type = Queen, color = Black\<rparr>) \<and>
   isValidMove sampleBoard 0 3 0 3 = Some (Inr False)"
proof -
  have h: "boardAt sampleBoard 0 3 = Inr (Some \<lparr>type = Queen, color = Black\<rparr>)"
    by (simp add: board_simps)
  show ?thesis using h null_move_is_rejected [OF h] by simp
qed

text \<open>
  C3. A rook, bishop or queen whose move has the geometry of its kind is refused
  when one of the squares strictly between origin and destination, the \<open>k\<close>-th
  from the origin, holds a piece of either colour.
\<close>

theorem obstructed_slide_is_rejected:
  assumes wf: "wfBoard board"
    and origin: "inRange fromRow fromCol" and target: "inRange toRow toCol"
    and piece: "boardAt board fromRow fromCol = Inr (Some p)"
    and geo: "lineGeometry (type p) fromRow fromCol toRow toCol"
    and k: "0 < k" "k < max \<bar>toRow - fromRow\<bar> \<bar>toCol - fromCol\<bar>"
    and blocked: "boardAt board (fromRow + k * sgn (toRow - fromRow)) (fromCol + k * sgn (toCol - fromCol)) = Inr (Some q)"
  shows "isValidMove board fromRow fromCol toRow toCol = Some (Inr False)"
proof -
  obtain t where t: "boardAt board toRow toCol = Inr t"
    using boardAt_inRange [OF wf target] by blast
  show ?thesis
  proof (cases "case t of None \<Rightarrow> False | Some q \<Rightarrow> color q = color p")
    case True
    then show ?thesis
      using piece t by (auto simp add: isValidMove_def isValidMoveWith_def)
  next
    case False
    then have other: "\<And>q. t = Some q \<Longrightarrow> color q \<noteq> color p" by auto
    have line: "fromRow = toRow \<or> fromCol = toCol \<or> \<bar>toRow - fromRow\<bar> = \<bar>toCol - fromCol\<bar>"
      using geo by (cases "type p") (auto simp: lineGeometry_def)
    have readable: "\<exists>v. boardAt board (fromRow + j * sgn (toRow - fromRow)) (fromCol + j * sgn (toCol - fromCol)) = Inr v"
      if "0 < j" "j < max \<bar>toRow - fromRow\<bar> \<bar>toCol - fromCol\<bar>" for j
      using boardAt_inRange [OF wf path_inRange [OF origin target that line]] by blast
    have "isValidMoveWith (boardAt board) fromRow fromCol toRow toCol =
        Some (Inr (\<forall>j. 0 < j \<and> j < max \<bar>toRow - fromRow\<bar> \<bar>toCol - fromCol\<bar> \<longrightarrow>
          boardAt board (fromRow + j * sgn (toRow - fromRow)) (fromCol + j * sgn (toCol - fromCol)) = Inr None))"
      using piece t other geo readable by (rule isValidMoveWith_slide)
    moreover have "\<not> (\<forall>j. 0 < j \<and> j < max \<bar>toRow - fromRow\<bar> \<bar>toCol - fromCol\<bar> \<longrightarrow>
          boardAt board (fromRow + j * sgn (toRow - fromRow)) (fromCol + j * sgn (toCol - fromCol)) = Inr None)"
      using k blocked by auto
    ultimately show ?thesis by (simp add: isValidMove_def)
  qed
qed

theorem obstructed_slide_is_rejected_witness:
  "wfBoard sampleBoard \<and> inRange 0 3 \<and> inRange 4 7 \<and>
   boardAt sampleBoard 0 3 = Inr (Some \<lparr>type = Queen, color = Black\<rparr>) \<and>
   lineGeometry (type \<lparr>type = Queen, color = Black\<rparr>) 0 3 4 7 \<and>
   (0::int) < 1 \<and> (1::int) < max \<bar>4 - 0\<bar> \<bar>7 - 3\<bar> \<and>
   boardAt sampleBoard (0 + 1 * sgn (4 - 0)) (3 + 1 * sgn (7 - 3)) = Inr (Some \<lparr>type = Pawn, color = Black\<rparr>) \<and>
   isValidMove sampleBoard 0 3 4 7 = Some (Inr False)"
proof -
  have h: "wfBoard sampleBoard" "inRange 0 3" "inRange 4 7"
    "boardAt sampleBoard 0 3 = Inr (Some \<lparr>type = Queen, color = Black\<rparr>)"
    "lineGeometry (type \<lparr>type = Queen, color = Black\<rparr>) 0 3 4 7"
    "(0::int) < 1" "(1::int) < max \<bar>4 - 0\<bar> \<bar>7 - 3\<bar>"
    "boardAt sampleBoard (0 + 1 * sgn (4 - 0)) (3 + 1 * sgn (7 - 3)) = Inr (Some \<lparr>type = Pawn, color = Black\<rparr>)"
    by (simp_all add: board_simps lineGeometry_def)
  show ?thesis using h obstructed_slide_is_rejected [OF h] by simp
qed

text \<open>
  C4. A pawn and its straight advance. From the starting row, with the next two
  squares of its column empty, the advance by one row and the advance by two rows
  are both accepted; from the starting row with the next square occupied, the
  advance by two rows is refused; from any other row the advance by two rows is
  refused.
\<close>

theorem pawn_straight_advance:
  assumes wf: "wfBoard board" and origin: "inRange fromRow fromCol"
    and piece: "boardAt board fromRow fromCol = Inr (Some p)" and pawn: "type p = Pawn"
  shows "(fromRow = startRow (color p) \<and>
          boardAt board (fromRow + direction (color p)) fromCol = Inr None \<and>
          boardAt board (fromRow + 2 * direction (color p)) fromCol = Inr None \<longrightarrow>
            isValidMove board fromRow fromCol (fromRow + direction (color p)) fromCol = Some (Inr True) \<and>
            isValidMove board fromRow fromCol (fromRow + 2 * direction (color p)) fromCol = Some (Inr True)) \<and>
         (fromRow = startRow (color p) \<and>
          (\<exists>q. boardAt board (fromRow + direction (color p)) fromCol = Inr (Some q)) \<longrightarrow>
            isValidMove board fromRow fromCol (fromRow + 2 * direction (color p)) fromCol = Some (Inr False)) \<and>
         (fromRow \<noteq> startRow (color p) \<and> inRange (fromRow + 2 * direction (color p)) fromCol \<longrightarrow>
            isValidMove board fromRow fromCol (fromRow + 2 * direction (color p)) fromCol = Some (Inr False))"
proof -
  let ?d = "direction (color p)"
  have d: "?d \<noteq> 0" "2 * ?d \<noteq> ?d" by (simp_all add: direction_def)
  have rejected: "isValidMove board fromRow fromCol (fromRow + 2 * ?d) fromCol = Some (Inr False)"
    if t: "boardAt board (fromRow + 2 * ?d) fromCol = Inr t"
      and no: "fromRow \<noteq> startRow (color p) \<or> (\<exists>q. boardAt board (fromRow + ?d) fromCol = Inr (Some q))"
    for t
  proof (cases "case t of None \<Rightarrow> False | Some q \<Rightarrow> color q = color p")
    case True
    then show ?thesis
      using piece t by (auto simp add: isValidMove_def isValidMoveWith_def)
  next
    case False
    then have "\<And>q. t = Some q \<Longrightarrow> color q \<noteq> color p" by auto
    with piece pawn t
    have "isValidMoveWith (boardAt board) fromRow fromCol (fromRow + 2 * ?d) fromCol =
          Some (pawnMove (boardAt board) p t fromRow fromCol (fromRow + 2 * ?d) fromCol)"
      by (rule isValidMoveWith_pawn)
    moreover have "pawnMove (boardAt board) p t fromRow fromCol (fromRow + 2 * ?d) fromCol = Inr False"
      using no d by (auto simp add: pawnMove_def Let_def)
    ultimately show ?thesis by (simp add: isValidMove_def)
  qed
  show ?thesis
  proof (intro conjI impI)
    assume a: "fromRow = startRow (color p) \<and>
          boardAt board (fromRow + ?d) fromCol = Inr None \<and>
          boardAt board (fromRow + 2 * ?d) fromCol = Inr None"
    then have one: "boardAt board (fromRow + ?d) fromCol = Inr None"
      and two: "boardAt board (fromRow + 2 * ?d) fromCol = Inr None"
      and start: "fromRow = startRow (color p)"
      by blast+
    have "isValidMoveWith (boardAt board) fromRow fromCol (fromRow + ?d) fromCol =
          Some (pawnMove (boardAt board) p None fromRow fromCol (fromRow + ?d) fromCol)"
      using piece pawn one by (rule isValidMoveWith_pawn) simp
    then show "isValidMove board fromRow fromCol (fromRow + ?d) fromCol = Some (Inr True)"
      by (simp add: isValidMove_def pawnMove_def)
    have "isValidMoveWith (boardAt board) fromRow fromCol (fromRow + 2 * ?d) fromCol =
          Some (pawnMove (boardAt board) p None fromRow fromCol (fromRow + 2 * ?d) fromCol)"
      using piece pawn two by (rule isValidMoveWith_pawn) simp
    moreover have "pawnMove (boardAt board) p None fromRow fromCol (fromRow + 2 * ?d) fromCol = Inr True"
      using d one start [symmetric] by (simp add: pawnMove_def Let_def)
    ultimately show "isValidMove board fromRow fromCol (fromRow + 2 * ?d) fromCol = Some (Inr True)"
      by (simp add: isValidMove_def)
  next
    assume b: "fromRow = startRow (color p) \<and>
          (\<exists>q. boardAt board (fromRow + ?d) fromCol = Inr (Some q))"
    then have "inRange (fromRow + 2 * ?d) fromCol"
      using origin by (simp add: inRange_def startRow_def direction_def)
    then obtain t where "boardAt board (fromRow + 2 * ?d) fromCol = Inr t"
      using boardAt_inRange [OF wf] by blast
    then show "isValidMove board fromRow fromCol (fromRow + 2 * ?d) fromCol = Some (Inr False)"
      using b by (intro rejected) auto
  next
    assume c: "fromRow \<noteq> startRow (color p) \<and> inRange (fromRow + 2 * ?d) fromCol"
    then obtain t where "boardAt board (fromRow + 2 * ?d) fromCol = Inr t"
      using boardAt_inRange [OF wf] by blast
    then show "isValidMove board fromRow fromCol (fromRow + 2 * ?d) fromCol = Some (Inr False)"
      using c by (intro rejected) auto
  qed
qed

theorem pawn_straight_advance_witness:
  "wfBoard sampleBoard \<and>
   boardAt sampleBoard 6 4 = Inr (Some \<lparr>type = Pawn, color = White\<rparr>) \<and>
   boardAt sampleBoard 5 4 = Inr None \<and> boardAt sampleBoard 4 4 = Inr None \<and>
   isValidMove sampleBoard 6 4 5 4 = Some (Inr True) \<and>
   isValidMove sampleBoard 6 4 4 4 = Some (Inr True) \<and>
   boardAt sampleBoard 6 0 = Inr (Some \<lparr>type = Pawn, color = White\<rparr>) \<and>
   boardAt sampleBoard 5 0 = Inr (Some \<lparr>type = Knight, color = Black\<rparr>) \<and>
   isValidMove sampleBoard 6 0 4 0 = Some (Inr False) \<and>
   boardAt sampleBoard 3 2 = Inr (Some \<lparr>type = Pawn, color = Black\<rparr>) \<and>
   inRange 5 2 \<and>
   isValidMove sampleBoard 3 2 5 2 = Some (Inr False)"
proof -
  have wf: "wfBoard sampleBoard" by (simp add: board_simps)
  have sq: "boardAt sampleBoard 6 4 = Inr (Some \<lparr>type = Pawn, color = White\<rparr>)"
    "boardAt sampleBoard 5 4 = Inr None" "boardAt sampleBoard 4 4 = Inr None"
    "boardAt sampleBoard 6 0 = Inr (Some \<lparr>type = Pawn, color = White\<rparr>)"
    "boardAt sampleBoard 5 0 = Inr (Some \<lparr>type = Knight, color = Black\<rparr>)"
    "boardAt sampleBoard 3 2 = Inr (Some \<lparr>type = Pawn, color = Black\<rparr>)"
    by (simp_all add: board_simps)
  have rg: "inRange 6 4" "inRange 6 0" "inRange 3 2" "inRange 5 2"
    by (simp_all add: inRange_def)
  have a: "isValidMove sampleBoard 6 4 5 4 = Some (Inr True) \<and>
           isValidMove sampleBoard 6 4 4 4 = Some (Inr True)"
    using pawn_straight_advance [OF wf rg(1) sq(1)] sq(2,3)
    by (simp add: startRow_def direction_def)
  have b: "isValidMove sampleBoard 6 0 4 0 = Some (Inr False)"
    using pawn_straight_advance [OF wf rg(2) sq(4)] sq(5)
    by (simp add: startRow_def direction_def)
  have c: "isValidMove sampleBoard 3 2 5 2 = Some (Inr False)"
    using pawn_straight_advance [OF wf rg(3) sq(6)] rg(4)
    by (simp add: startRow_def direction_def)
  show ?thesis
    using wf sq rg(4) a b c by simp
qed

text \<open>
  C5. A pawn stepping one column sideways and one row forward is refused when the
  destination is empty and accepted when it holds a piece of the other colour.
\<close>

theorem pawn_diagonal_step:
  assumes piece: "boardAt board fromRow fromCol = Inr (Some p)" and pawn: "type p = Pawn"
    and side: "\<bar>toCol - fromCol\<bar> = 1" and forward: "toRow = fromRow + direction (color p)"
  shows "(boardAt board toRow toCol = Inr None \<longrightarrow>
            isValidMove board fromRow fromCol toRow toCol = Some (Inr False)) \<and>
         (boardAt board toRow toCol = Inr (Some q) \<and> color q \<noteq> color p \<longrightarrow>
            isValidMove board fromRow fromCol toRow toCol = Some (Inr True))"
proof (intro conjI impI)
  assume empty: "boardAt board toRow toCol = Inr None"
  have "isValidMoveWith (boardAt board) fromRow fromCol toRow toCol =
        Some (pawnMove (boardAt board) p None fromRow fromCol toRow toCol)"
    using piece pawn empty by (rule isValidMoveWith_pawn) simp
  moreover have "pawnMove (boardAt board) p None fromRow fromCol toRow toCol = Inr False"
    using side by (auto simp add: pawnMove_def Let_def)
  ultimately show "isValidMove board fromRow fromCol toRow toCol = Some (Inr False)"
    by (simp add: isValidMove_def)
next
  assume q: "boardAt board toRow toCol = Inr (Some q) \<and> color q \<noteq> color p"
  then have "isValidMoveWith (boardAt board) fromRow fromCol toRow toCol =
        Some (pawnMove (boardAt board) p (Some q) fromRow fromCol toRow toCol)"
    using piece pawn by (intro isValidMoveWith_pawn) auto
  moreover have "pawnMove (boardAt board) p (Some q) fromRow fromCol toRow toCol = Inr True"
    using side forward by (simp add: pawnMove_def Let_def)
  ultimately show "isValidMove board fromRow fromCol toRow toCol = Some (Inr True)"
    by (simp add: isValidMove_def)
qed

theorem pawn_diagonal_step_witness:
  "boardAt sampleBoard 6 4 = Inr (Some \<lparr>type = Pawn, color = White\<rparr>) \<and>
   boardAt sampleBoard 5 5 = Inr None \<and>
   isValidMove sampleBoard 6 4 5 5 = Some (Inr False) \<and>
   boardAt sampleBoard 5 3 = Inr (Some \<lparr>type = Bishop, color = Black\<rparr>) \<and>
   isValidMove sampleBoard 6 4 5 3 = Some (Inr True)"
proof -
  have sq: "boardAt sampleBoard 6 4 = Inr (Some \<lparr>type = Pawn, color = White\<rparr>)"
    "boardAt sampleBoard 5 5 = Inr None"
    "boardAt sampleBoard 5 3 = Inr (Some \<lparr>type = Bishop, color = Black\<rparr>)"
    by (simp_all add: board_simps)
  have pawn: "type \<lparr>type = Pawn, color = White\<rparr> = Pawn" by simp
  have right: "\<bar>5 - 4\<bar> = (1::int)" and left: "\<bar>3 - 4\<bar> = (1::int)" by simp_all
  have forward: "(5::int) = 6 + direction (color \<lparr>type = Pawn, color = White\<rparr>)"
    by (simp add: direction_def)
  have e: "isValidMove sampleBoard 6 4 5 5 = Some (Inr False)"
    using pawn_diagonal_step [OF sq(1) pawn right forward] sq(2) by simp
  have c: "isValidMove sampleBoard 6 4 5 3 = Some (Inr True)"
    using pawn_diagonal_step [OF sq(1) pawn left forward,
        where q = "\<lparr>type = Bishop, color = Black\<rparr>"] sq(3) by simp
  show ?thesis using sq e c by simp
qed

text \<open>
  C10. With origin and destination within an 8 by 8 board, the check run over the
  read that reports every index outside an array returns a boolean, the one that
  \<open>isValidMove\<close> returns: no read of the origin, the destination, the square in
  front of a pawn or a square on a path falls outside the board, and the path loop
  ends.
\<close>

theorem reads_stay_on_board:
  assumes wf: "wfBoard board" and origin: "inRange fromRow fromCol" and target: "inRange toRow toCol"
  shows "\<exists>ok. isValidMoveWith (boardAtChecked board) fromRow fromCol toRow toCol = Some (Inr ok) \<and>
              isValidMove board fromRow fromCol toRow toCol = Some (Inr ok)"
proof -
  have ok: "\<And>r c. inRange r c \<Longrightarrow> \<exists>v. boardAtChecked board r c = Inr v"
    using boardAtChecked_inRange [OF wf] by blast
  have same: "\<And>r c. inRange r c \<Longrightarrow> boardAtChecked board r c = boardAt board r c"
    using boardAtChecked_inRange [OF wf] boardAt_inRange [OF wf] by simp
  obtain b where "isValidMoveWith (boardAtChecked board) fromRow fromCol toRow toCol = Some (Inr b)"
    using isValidMoveWith_total [of "boardAtChecked board" fromRow fromCol toRow toCol]
      ok origin target by blast
  moreover have "isValidMoveWith (boardAtChecked board) fromRow fromCol toRow toCol =
      isValidMove board fromRow fromCol toRow toCol"
    unfolding isValidMove_def using same ok origin target by (rule isValidMoveWith_agree)
  ultimately show ?thesis by simp
qed

theorem reads_stay_on_board_witness:
  "wfBoard sampleBoard \<and> inRange 0 3 \<and> inRange 3 0 \<and>
   (\<exists>ok. isValidMoveWith (boardAtChecked sampleBoard) 0 3 3 0 = Some (Inr ok) \<and>
         isValidMove sampleBoard 0 3 3 0 = Some (Inr ok))"
proof -
  have h: "wfBoard sampleBoard" "inRange 0 3" "inRange 3 0"
    by (simp_all add: board_simps)
  show ?thesis using h reads_stay_on_board [OF h] by simp
qed

section \<open>What the loops of \<open>makeAIMove\<close> collect\<close>

lemma forEach_ok:
  "(\<And>i. i \<in> set xs \<Longrightarrow> body i = Some (Inr (g i))) \<Longrightarrow>
   forEach xs body = Some (Inr (concat (map g xs)))"
  by (induction xs) simp_all

lemma in_eightIndices:
  "i \<in> set eightIndices \<longleftrightarrow> 0 \<le> i \<and> i < 8"
proof -
  have "eightIndices = [0..7]" by code_simp
  then have "set eightIndices = set [0..7]" by (rule arg_cong)
  then have "set eightIndices = {0..7}" by (simp only: set_upto)
  then show ?thesis by auto
qed

lemma eightIndices_inRange:
  "r \<in> set eightIndices \<Longrightarrow> c \<in> set eightIndices \<Longrightarrow> inRange r c"
  by (simp add: in_eightIndices inRange_def)

lemma inRange_eightIndices:
  "inRange r c \<Longrightarrow> r \<in> set eightIndices \<and> c \<in> set eightIndices"
  by (simp add: in_eightIndices inRange_def)

lemma in_legalFrom:
  "m \<in> set (legalFrom board fromRow fromCol) \<longleftrightarrow>
   (\<exists>toRow toCol. inRange toRow toCol \<and>
      isValidMove board fromRow fromCol toRow toCol = Some (Inr True) \<and>
      m = (fromRow, fromCol, toRow, toCol))"
  by (auto simp: legalFrom_def in_eightIndices inRange_def split: if_splits)

lemma isValidMove_total:
  assumes "wfBoard board" "inRange fromRow fromCol" "inRange toRow toCol"
  shows "\<exists>ok. isValidMove board fromRow fromCol toRow toCol = Some (Inr ok)"
proof -
  have "\<And>r c. inRange r c \<Longrightarrow> \<exists>v. boardAt board r c = Inr v"
    using boardAt_inRange [OF assms(1)] by blast
  then show ?thesis unfolding isValidMove_def using assms(2,3) by (rule isValidMoveWith_total)
qed

lemma destinations_loop:
  assumes wf: "wfBoard board" and origin: "inRange fromRow fromCol"
  shows "forEach eightIndices (\<lambda>toRow.
           forEach eightIndices (\<lambda>toCol.
             case isValidMove board fromRow fromCol toRow toCol of
               None \<Rightarrow> None
             | Some (Inl e) \<Rightarrow> Some (Inl e)
             | Some (Inr ok) \<Rightarrow>
                 Some (Inr (if ok then [(fromRow, fromCol, toRow, toCol)] else [])))) =
         Some (Inr (legalFrom board fromRow fromCol))"
  unfolding legalFrom_def
proof (rule forEach_ok, rule forEach_ok)
  fix toRow toCol
  assume "toRow \<in> set eightIndices" "toCol \<in> set eightIndices"
  then have "inRange toRow toCol" by (rule eightIndices_inRange)
  then obtain ok where "isValidMove board fromRow fromCol toRow toCol = Some (Inr ok)"
    using isValidMove_total [OF wf origin] by blast
  then show "(case isValidMove board fromRow fromCol toRow toCol of
               None \<Rightarrow> None
             | Some (Inl e) \<Rightarrow> Some (Inl e)
             | Some (Inr ok) \<Rightarrow>
                 Some (Inr (if ok then [(fromRow, fromCol, toRow, toCol)] else []))) =
        Some (Inr (if isValidMove board fromRow fromCol toRow toCol = Some (Inr True)
                   then [(fromRow, fromCol, toRow, toCol)] else []))"
    by simp
qed

lemma aiMoves_result:
  assumes wf: "wfBoard board"
  shows "aiMoves board side =
         Some (Inr (concat (map (\<lambda>fromRow. concat (map (\<lambda>fromCol.
           if (case board ! nat fromRow ! nat fromCol of None \<Rightarrow> False | Some p \<Rightarrow> color p = side)
           then legalFrom board fromRow fromCol else []) eightIndices)) eightIndices)))"
  unfolding aiMoves_def
proof (rule forEach_ok, rule forEach_ok)
  fix fromRow fromCol
  assume "fromRow \<in> set eightIndices" "fromCol \<in> set eightIndices"
  then have origin: "inRange fromRow fromCol" by (rule eightIndices_inRange)
  show "(case boardAt board fromRow fromCol of
           Inl e \<Rightarrow> Some (Inl e)
         | Inr piece \<Rightarrow>
             if (case piece of None \<Rightarrow> False | Some p \<Rightarrow> color p = side) then
               forEach eightIndices (\<lambda>toRow.
                 forEach eightIndices (\<lambda>toCol.
                   case isValidMove board fromRow fromCol toRow toCol of
                     None \<Rightarrow> None
                   | Some (Inl e) \<Rightarrow> Some (Inl e)
                   | Some (Inr ok) \<Rightarrow>
                       Some (Inr (if ok then [(fromRow, fromCol, toRow, toCol)] else []))))
             else Some (Inr [])) =
        Some (Inr (if (case board ! nat fromRow ! nat fromCol of None \<Rightarrow> False | Some p \<Rightarrow> color p = side)
           then legalFrom board fromRow fromCol else []))"
    by (simp add: boardAt_inRange [OF wf origin] destinations_loop [OF wf origin])
qed

lemma aiMoves_set:
  assumes wf: "wfBoard board"
  shows "\<exists>moves. aiMoves board side = Some (Inr moves) \<and>
           set moves = {(fromRow, fromCol, toRow, toCol).
              inRange fromRow fromCol \<and> inRange toRow toCol \<and>
              (\<exists>p. boardAt board fromRow fromCol = Inr (Some p) \<and> color p = side) \<and>
              isValidMove board fromRow fromCol toRow toCol = Some (Inr True)}"
proof (intro exI conjI)
  show "aiMoves board side = Some (Inr (concat (map (\<lambda>fromRow. concat (map (\<lambda>fromCol.
           if (case board ! nat fromRow ! nat fromCol of None \<Rightarrow> False | Some p \<Rightarrow> color p = side)
           then legalFrom board fromRow fromCol else []) eightIndices)) eightIndices)))"
    by (rule aiMoves_result [OF wf])
  show "set (concat (map (\<lambda>fromRow. concat (map (\<lambda>fromCol.
           if (case board ! nat fromRow ! nat fromCol of None \<Rightarrow> False | Some p \<Rightarrow> color p = side)
           then legalFrom board fromRow fromCol else []) eightIndices)) eightIndices)) =
        {(fromRow, fromCol, toRow, toCol).
              inRange fromRow fromCol \<and> inRange toRow toCol \<and>
              (\<exists>p. boardAt board fromRow fromCol = Inr (Some p) \<and> color p = side) \<and>
              isValidMove board fromRow fromCol toRow toCol = Some (Inr True)}"
    (is "?L = ?R")
  proof (intro set_eqI iffI)
    fix m assume "m \<in> ?L"
    then obtain fromRow fromCol where
      rc: "fromRow \<in> set eightIndices" "fromCol \<in> set eightIndices"
      and p: "case board ! nat fromRow ! nat fromCol of None \<Rightarrow> False | Some p \<Rightarrow> color p = side"
      and m: "m \<in> set (legalFrom board fromRow fromCol)"
      by (auto split: if_splits)
    have origin: "inRange fromRow fromCol" using rc by (rule eightIndices_inRange)
    show "m \<in> ?R"
      using m p origin
      by (auto simp: in_legalFrom boardAt_inRange [OF wf origin] split: option.splits)
  next
    fix m assume "m \<in> ?R"
    then obtain fromRow fromCol toRow toCol p where
      m: "m = (fromRow, fromCol, toRow, toCol)"
      and origin: "inRange fromRow fromCol" and target: "inRange toRow toCol"
      and p: "boardAt board fromRow fromCol = Inr (Some p)" "color p = side"
      and ok: "isValidMove board fromRow fromCol toRow toCol = Some (Inr True)"
      by auto
    have "m \<in> set (legalFrom board fromRow fromCol)"
      using m target ok by (auto simp: in_legalFrom)
    moreover have "case board ! nat fromRow ! nat fromCol of None \<Rightarrow> False | Some p \<Rightarrow> color p = side"
      using p by (simp add: boardAt_inRange [OF wf origin])
    ultimately show "m \<in> ?L"
      using inRange_eightIndices [OF origin] by auto
  qed
qed

section \<open>What \<open>applyMove\<close> does to the store\<close>

lemma readRows_Some:
  "readRows h rows = Some bd \<longleftrightarrow>
   length bd = length rows \<and> (\<forall>i<length rows. rowAt h (rows ! i) = Some (bd ! i))"
proof (induction rows arbitrary: bd)
  case Nil
  then show ?case by auto
next
  case (Cons a rest)
  show ?case
  proof (cases bd)
    case Nil
    then show ?thesis by (auto split: option.splits)
  next
    case (Cons cells below)
    have "(\<forall>i<length (a # rest). rowAt h ((a # rest) ! i) = Some ((cells # below) ! i)) =
          (rowAt h a = Some cells \<and> (\<forall>i<length rest. rowAt h (rest ! i) = Some (below ! i)))"
      by (auto simp: nth_Cons split: nat.splits)
    then show ?thesis
      using Cons.IH [of below] Cons by (auto split: option.splits)
  qed
qed

lemma ownsRows_boardOf:
  assumes "ownsRows h n b bd"
  shows "boardOf h b = Some bd"
proof -
  have "rowsAt h b = Some [n..<n + length bd]"
    using assms by (simp add: ownsRows_def rowsAt_def)
  moreover have "readRows h [n..<n + length bd] = Some bd"
    unfolding readRows_Some using assms by (auto simp: ownsRows_def rowAt_def)
  ultimately show ?thesis by (simp add: boardOf_def)
qed

lemma ownsRows_readCell:
  assumes "ownsRows h n b bd"
  shows "readCell h b r c = boardAt bd r c"
proof -
  have rows: "rowsAt h b = Some [n..<n + length bd]"
    using assms by (simp add: ownsRows_def rowsAt_def)
  show ?thesis
  proof (cases "0 \<le> r \<and> r < int (length bd)")
    case True
    then have "nat r < length bd" by auto
    then have "rowAt h ([n..<n + length bd] ! nat r) = Some (bd ! nat r)"
      using assms by (auto simp: ownsRows_def rowAt_def)
    then show ?thesis using rows True by (auto simp add: readCell_def boardAt_def Let_def)
  next
    case False
    then show ?thesis using rows by (auto simp add: readCell_def boardAt_def Let_def)
  qed
qed

lemma ownsRows_writeCell:
  assumes own: "ownsRows h n b bd"
    and r: "0 \<le> r" "r < int (length bd)" and c: "0 \<le> c" "c < int (length (bd ! nat r))"
  shows "writeCell h b r c v = Inr (h[n + nat r := RowArray ((bd ! nat r)[nat c := v])])"
    and "ownsRows (h[n + nat r := RowArray ((bd ! nat r)[nat c := v])]) n b
           (bd[nat r := (bd ! nat r)[nat c := v]])"
proof -
  have rows: "rowsAt h b = Some [n..<n + length bd]"
    using own by (simp add: ownsRows_def rowsAt_def)
  have nr: "nat r < length bd" using r by auto
  then have row: "rowAt h (n + nat r) = Some (bd ! nat r)"
    using own by (auto simp: ownsRows_def rowAt_def)
  show "writeCell h b r c v = Inr (h[n + nat r := RowArray ((bd ! nat r)[nat c := v])])"
    using rows row nr r c by (simp add: writeCell_def)
  show "ownsRows (h[n + nat r := RowArray ((bd ! nat r)[nat c := v])]) n b
           (bd[nat r := (bd ! nat r)[nat c := v]])"
    using own nr by (auto simp: ownsRows_def nth_list_update)
qed

lemma rowAt_append:
  "rowAt h a = Some cells \<Longrightarrow> rowAt (h @ extra) a = Some cells"
  by (auto simp: rowAt_def nth_append split: if_splits)

lemma copyRows_result:
  "readRows h rows = Some bd \<Longrightarrow>
   copyRows h rows = Inr (h @ map RowArray bd, [length h..<length h + length rows])"
proof (induction rows arbitrary: h bd)
  case Nil
  then show ?case by simp
next
  case (Cons a rest)
  then obtain cells below where bd: "bd = cells # below"
    and a: "rowAt h a = Some cells" and rest: "readRows h rest = Some below"
    by (auto split: option.splits)
  have "readRows (h @ [RowArray cells]) rest = Some below"
    using rest unfolding readRows_Some by (auto intro: rowAt_append)
  from Cons.IH [OF this]
  have cp: "copyRows (h @ [RowArray cells]) rest =
        Inr (h @ RowArray cells # map RowArray below, [Suc (length h)..<Suc (length h) + length rest])"
    by simp
  have up: "[length h..<length h + length (a # rest)] =
        length h # [Suc (length h)..<Suc (length h) + length rest]"
    by (simp del: upt_Suc add: upt_conv_Cons)
  show ?case unfolding bd up using a cp by (simp del: upt_Suc)
qed

lemma copyBoard_result:
  assumes "boardOf h board = Some bd"
  shows "copyBoard h board =
         Inr (h @ map RowArray bd @ [BoardArray [length h..<length h + length bd]], length h + length bd)"
    and "ownsRows (h @ map RowArray bd @ [BoardArray [length h..<length h + length bd]])
           (length h) (length h + length bd) bd"
proof -
  obtain rows where rows: "rowsAt h board = Some rows" and rd: "readRows h rows = Some bd"
    using assms by (auto simp: boardOf_def split: option.splits)
  have len: "length bd = length rows" using rd unfolding readRows_Some by simp
  show "copyBoard h board =
         Inr (h @ map RowArray bd @ [BoardArray [length h..<length h + length bd]], length h + length bd)"
    using rows copyRows_result [OF rd] len by (simp add: copyBoard_def)
  show "ownsRows (h @ map RowArray bd @ [BoardArray [length h..<length h + length bd]])
           (length h) (length h + length bd) bd"
    by (auto simp: ownsRows_def nth_append)
qed

lemma wfBoard_row:
  "wfBoard bd \<Longrightarrow> i < 8 \<Longrightarrow> length (bd ! i) = 8"
  by (simp add: wfBoard_def list_all_length)

lemma wfBoard_update:
  assumes "wfBoard bd"
  shows "wfBoard (bd[i := (bd ! i)[j := v]])"
proof -
  have "length ((bd[i := (bd ! i)[j := v]]) ! a) = 8" if "a < 8" for a
    using assms that by (cases "a = i") (simp_all add: wfBoard_def list_all_length)
  then show ?thesis using assms by (simp add: wfBoard_def list_all_length)
qed

lemma cell_update_at:
  assumes "i < length bd" "j < length (bd ! i)"
  shows "(bd[i := (bd ! i)[j := v]]) ! a ! b = (if a = i \<and> b = j then v else bd ! a ! b)"
  using assms by (cases "a = i") (simp_all add: nth_list_update)

lemma wfBoard_movedBoard:
  "wfBoard bd \<Longrightarrow> wfBoard (movedBoard bd fromRow fromCol toRow toCol)"
  unfolding movedBoard_def Let_def by (intro wfBoard_update)

lemma movedBoard_at:
  assumes wf: "wfBoard bd" and origin: "inRange fromRow fromCol" and target: "inRange toRow toCol"
    and sq: "inRange r c"
  shows "movedBoard bd fromRow fromCol toRow toCol ! nat r ! nat c =
         (if r = fromRow \<and> c = fromCol then None
          else if r = toRow \<and> c = toCol then bd ! nat fromRow ! nat fromCol
          else bd ! nat r ! nat c)"
proof -
  define placed where
    "placed = bd[nat toRow := (bd ! nat toRow)[nat toCol := bd ! nat fromRow ! nat fromCol]]"
  have n: "nat fromRow < 8" "nat fromCol < 8" "nat toRow < 8" "nat toCol < 8"
    using origin target by (auto simp: inRange_def)
  have eq: "nat r = nat fromRow \<longleftrightarrow> r = fromRow" "nat c = nat fromCol \<longleftrightarrow> c = fromCol"
    "nat r = nat toRow \<longleftrightarrow> r = toRow" "nat c = nat toCol \<longleftrightarrow> c = toCol"
    using origin target sq by (auto simp: inRange_def)
  have wfp: "wfBoard placed" unfolding placed_def using wf by (rule wfBoard_update)
  have first: "placed ! a ! b =
      (if a = nat toRow \<and> b = nat toCol then bd ! nat fromRow ! nat fromCol else bd ! a ! b)" for a b
    unfolding placed_def using wf n wfBoard_row [OF wf n(3)]
    by (intro cell_update_at) (simp_all add: wfBoard_def)
  have second: "(placed[nat fromRow := (placed ! nat fromRow)[nat fromCol := None]]) ! a ! b =
      (if a = nat fromRow \<and> b = nat fromCol then None else placed ! a ! b)" for a b
    using wfp n wfBoard_row [OF wfp n(1)]
    by (intro cell_update_at) (simp_all add: wfBoard_def)
  have "movedBoard bd fromRow fromCol toRow toCol =
        placed[nat fromRow := (placed ! nat fromRow)[nat fromCol := None]]"
    by (simp add: movedBoard_def placed_def Let_def)
  then show ?thesis
    by (simp only: second first eq)
qed

lemma wfBoard_eqI:
  assumes x: "wfBoard x" and y: "wfBoard y"
    and same: "\<And>r c. inRange r c \<Longrightarrow> x ! nat r ! nat c = y ! nat r ! nat c"
  shows "x = y"
proof (rule nth_equalityI)
  show "length x = length y" using x y by (simp add: wfBoard_def)
next
  fix i assume "i < length x"
  then have i: "i < 8" using x by (simp add: wfBoard_def)
  show "x ! i = y ! i"
  proof (rule nth_equalityI)
    show "length (x ! i) = length (y ! i)"
      using wfBoard_row [OF x i] wfBoard_row [OF y i] by simp
  next
    fix j assume "j < length (x ! i)"
    then have "j < 8" using wfBoard_row [OF x i] by simp
    then have "inRange (int i) (int j)" using i by (simp add: inRange_def)
    from same [OF this] show "x ! i ! j = y ! i ! j" by simp
  qed
qed

lemma movedBoard_back:
  assumes wf: "wfBoard bd" and origin: "inRange fromRow fromCol" and target: "inRange toRow toCol"
    and apart: "(fromRow, fromCol) \<noteq> (toRow, toCol)"
    and empty: "bd ! nat toRow ! nat toCol = None"
  shows "movedBoard (movedBoard bd fromRow fromCol toRow toCol) toRow toCol fromRow fromCol = bd"
proof (rule wfBoard_eqI)
  show "wfBoard (movedBoard (movedBoard bd fromRow fromCol toRow toCol) toRow toCol fromRow fromCol)"
    using wf by (intro wfBoard_movedBoard)
  show "wfBoard bd" by (rule wf)
next
  fix r c assume sq: "inRange r c"
  have wf1: "wfBoard (movedBoard bd fromRow fromCol toRow toCol)"
    using wf by (rule wfBoard_movedBoard)
  show "movedBoard (movedBoard bd fromRow fromCol toRow toCol) toRow toCol fromRow fromCol ! nat r ! nat c =
        bd ! nat r ! nat c"
    using apart empty
    by (auto simp add: movedBoard_at [OF wf1 target origin sq] movedBoard_at [OF wf origin target sq]
          movedBoard_at [OF wf origin target target])
qed

lemma boardOf_preserved:
  assumes bd: "boardOf h b = Some bd" and len: "length h \<le> length h'"
    and same: "\<And>a. a < length h \<Longrightarrow> h' ! a = h ! a"
  shows "boardOf h' b = Some bd"
proof -
  obtain rows where rows: "rowsAt h b = Some rows" and rd: "readRows h rows = Some bd"
    using bd by (auto simp: boardOf_def split: option.splits)
  have keep: "rowAt h' a = Some cells" if "rowAt h a = Some cells" for a cells
    using that len same [of a] by (auto simp: rowAt_def split: if_splits)
  have "rowsAt h' b = Some rows"
    using rows len same [of b] by (auto simp: rowsAt_def split: if_splits)
  moreover have "readRows h' rows = Some bd"
    using rd unfolding readRows_Some by (auto intro: keep)
  ultimately show ?thesis by (simp add: boardOf_def)
qed

lemma applyMove_result:
  assumes bd: "boardOf h board = Some bd" and wf: "wfBoard bd"
    and origin: "inRange fromRow fromCol" and target: "inRange toRow toCol"
  shows "\<exists>h'. applyMove h board fromRow fromCol toRow toCol = Inr (h', length h + 8) \<and>
           boardOf h' (length h + 8) = Some (movedBoard bd fromRow fromCol toRow toCol) \<and>
           length h \<le> length h' \<and> (\<forall>a<length h. h' ! a = h ! a)"
proof -
  let ?n = "length h"
  define h1 where "h1 = h @ map RowArray bd @ [BoardArray [?n..<?n + length bd]]"
  define moved where "moved = bd ! nat fromRow ! nat fromCol"
  define placed where "placed = bd[nat toRow := (bd ! nat toRow)[nat toCol := moved]]"
  define h2 where "h2 = h1[?n + nat toRow := RowArray ((bd ! nat toRow)[nat toCol := moved])]"
  define h3 where "h3 = h2[?n + nat fromRow := RowArray ((placed ! nat fromRow)[nat fromCol := None])]"
  have len: "length bd = 8" using wf by (simp add: wfBoard_def)
  have wfp: "wfBoard placed" unfolding placed_def using wf by (rule wfBoard_update)
  have n: "nat fromRow < 8" "nat fromCol < 8" "nat toRow < 8" "nat toCol < 8"
    using origin target by (auto simp: inRange_def)
  have copy: "copyBoard h board = Inr (h1, ?n + length bd)"
    and own1: "ownsRows h1 ?n (?n + length bd) bd"
    unfolding h1_def by (rule copyBoard_result [OF bd])+
  have rd: "readCell h1 (?n + length bd) fromRow fromCol = Inr moved"
    unfolding moved_def ownsRows_readCell [OF own1] by (rule boardAt_inRange [OF wf origin])
  have t: "0 \<le> toRow" "toRow < int (length bd)" "0 \<le> toCol" "toCol < int (length (bd ! nat toRow))"
    using target len wfBoard_row [OF wf n(3)] by (auto simp: inRange_def)
  have w1: "writeCell h1 (?n + length bd) toRow toCol moved = Inr h2"
    and own2: "ownsRows h2 ?n (?n + length bd) placed"
    unfolding h2_def placed_def by (rule ownsRows_writeCell [OF own1 t])+
  have lenp: "length placed = 8" using wfp by (simp add: wfBoard_def)
  have f: "0 \<le> fromRow" "fromRow < int (length placed)" "0 \<le> fromCol"
    "fromCol < int (length (placed ! nat fromRow))"
    using origin lenp wfBoard_row [OF wfp n(1)] by (auto simp: inRange_def)
  have w2: "writeCell h2 (?n + length bd) fromRow fromCol None = Inr h3"
    and own3: "ownsRows h3 ?n (?n + length bd)
        (placed[nat fromRow := (placed ! nat fromRow)[nat fromCol := None]])"
    unfolding h3_def by (rule ownsRows_writeCell [OF own2 f])+
  have mv: "placed[nat fromRow := (placed ! nat fromRow)[nat fromCol := None]] =
        movedBoard bd fromRow fromCol toRow toCol"
    by (simp add: movedBoard_def placed_def moved_def Let_def)
  have "applyMove h board fromRow fromCol toRow toCol = Inr (h3, ?n + length bd)"
    by (simp add: applyMove_def copy rd w1 w2)
  moreover have "boardOf h3 (?n + length bd) = Some (movedBoard bd fromRow fromCol toRow toCol)"
    using ownsRows_boardOf [OF own3] unfolding mv .
  moreover have "length h \<le> length h3" by (simp add: h3_def h2_def h1_def)
  moreover have "\<forall>a<length h. h3 ! a = h ! a"
    by (simp add: h3_def h2_def h1_def nth_append)
  ultimately show ?thesis unfolding len by blast
qed

section \<open>The move that \<open>makeAIMove\<close> chooses\<close>

text \<open>
  C6. On an 8 by 8 board and for either colour: a move that \<open>randomMove\<close> returns
  has its origin and destination within the board, its origin holds a piece of the
  colour, and \<open>isValidMove\<close> accepts it; when no such move exists, \<open>randomMove\<close>
  returns none. This holds for every index \<open>idx\<close> the random draw may produce. The
  loops always return a list, and \<open>randomMove\<close> returns its element at \<open>idx\<close> for
  every index within it.
\<close>

theorem chosen_move_is_legal:
  assumes wf: "wfBoard board"
  shows "(randomMove board side idx = Some (Inr (Some (fromRow, fromCol, toRow, toCol))) \<longrightarrow>
            inRange fromRow fromCol \<and> inRange toRow toCol \<and>
            (\<exists>p. boardAt board fromRow fromCol = Inr (Some p) \<and> color p = side) \<and>
            isValidMove board fromRow fromCol toRow toCol = Some (Inr True)) \<and>
         ((\<forall>r c r' c'. \<not> (inRange r c \<and> inRange r' c' \<and>
              (\<exists>p. boardAt board r c = Inr (Some p) \<and> color p = side) \<and>
              isValidMove board r c r' c' = Some (Inr True))) \<longrightarrow>
            randomMove board side idx = Some (Inr None)) \<and>
         (\<exists>moves. aiMoves board side = Some (Inr moves) \<and>
            (moves = [] \<longrightarrow> randomMove board side idx = Some (Inr None)) \<and>
            (idx < length moves \<longrightarrow> randomMove board side idx = Some (Inr (Some (moves ! idx)))))"
proof -
  obtain moves where moves: "aiMoves board side = Some (Inr moves)"
    and legal: "set moves = {(fromRow, fromCol, toRow, toCol).
              inRange fromRow fromCol \<and> inRange toRow toCol \<and>
              (\<exists>p. boardAt board fromRow fromCol = Inr (Some p) \<and> color p = side) \<and>
              isValidMove board fromRow fromCol toRow toCol = Some (Inr True)}"
    using aiMoves_set [OF wf] by blast
  have chosen: "(fromRow, fromCol, toRow, toCol) \<in> set moves"
    if "randomMove board side idx = Some (Inr (Some (fromRow, fromCol, toRow, toCol)))"
  proof -
    from that have "idx < length moves" "moves ! idx = (fromRow, fromCol, toRow, toCol)"
      using moves by (auto simp: randomMove_def split: if_splits)
    then show ?thesis using nth_mem by fastforce
  qed
  have none: "moves = []"
    if "\<forall>r c r' c'. \<not> (inRange r c \<and> inRange r' c' \<and>
              (\<exists>p. boardAt board r c = Inr (Some p) \<and> color p = side) \<and>
              isValidMove board r c r' c' = Some (Inr True))"
  proof -
    from that have "set moves = {}" unfolding legal by auto
    then show ?thesis by simp
  qed
  show ?thesis
  proof (intro conjI impI)
    assume "randomMove board side idx = Some (Inr (Some (fromRow, fromCol, toRow, toCol)))"
    then have m: "(fromRow, fromCol, toRow, toCol) \<in> set moves" by (rule chosen)
    then show "inRange fromRow fromCol" "inRange toRow toCol"
      "\<exists>p. boardAt board fromRow fromCol = Inr (Some p) \<and> color p = side"
      "isValidMove board fromRow fromCol toRow toCol = Some (Inr True)"
      unfolding legal by auto
  next
    assume "\<forall>r c r' c'. \<not> (inRange r c \<and> inRange r' c' \<and>
              (\<exists>p. boardAt board r c = Inr (Some p) \<and> color p = side) \<and>
              isValidMove board r c r' c' = Some (Inr True))"
    then have "moves = []" by (rule none)
    then show "randomMove board side idx = Some (Inr None)"
      using moves by (simp add: randomMove_def)
  next
    show "\<exists>moves. aiMoves board side = Some (Inr moves) \<and>
            (moves = [] \<longrightarrow> randomMove board side idx = Some (Inr None)) \<and>
            (idx < length moves \<longrightarrow> randomMove board side idx = Some (Inr (Some (moves ! idx))))"
      using moves by (auto simp: randomMove_def)
  qed
qed

theorem chosen_move_is_legal_witness:
  "wfBoard loneKingBoard \<and>
   randomMove loneKingBoard Black 2 = Some (Inr (Some (0, 0, 1, 1))) \<and>
   inRange 0 0 \<and> inRange 1 1 \<and>
   (\<exists>p. boardAt loneKingBoard 0 0 = Inr (Some p) \<and> color p = Black) \<and>
   isValidMove loneKingBoard 0 0 1 1 = Some (Inr True) \<and>
   (\<forall>r c r' c'. \<not> (inRange r c \<and> inRange r' c' \<and>
      (\<exists>p. boardAt loneKingBoard r c = Inr (Some p) \<and> color p = White) \<and>
      isValidMove loneKingBoard r c r' c' = Some (Inr True))) \<and>
   randomMove loneKingBoard White 2 = Some (Inr None)"
proof -
  have wf: "wfBoard loneKingBoard"
    by (simp add: wfBoard_def loneKingBoard_def emptyRow_def)
  have pick: "randomMove loneKingBoard Black 2 = Some (Inr (Some (0, 0, 1, 1)))"
    by code_simp
  have legal: "inRange 0 0 \<and> inRange 1 1 \<and>
      (\<exists>p. boardAt loneKingBoard 0 0 = Inr (Some p) \<and> color p = Black) \<and>
      isValidMove loneKingBoard 0 0 1 1 = Some (Inr True)"
    using chosen_move_is_legal [OF wf, of Black 2 0 0 1 1] pick by blast
  have black: "color p = Black"
    if "inRange r c" "boardAt loneKingBoard r c = Inr (Some p)" for r c p
  proof -
    have "r \<in> set eightIndices" "c \<in> set eightIndices"
      using that(1) by (simp_all add: inRange_eightIndices)
    then show ?thesis
      using that(2) by (auto simp: eightIndices_def boardAt_def loneKingBoard_def emptyRow_def)
  qed
  have nowhite: "\<forall>r c r' c'. \<not> (inRange r c \<and> inRange r' c' \<and>
      (\<exists>p. boardAt loneKingBoard r c = Inr (Some p) \<and> color p = White) \<and>
      isValidMove loneKingBoard r c r' c' = Some (Inr True))"
    using black by fastforce
  have none: "randomMove loneKingBoard White 2 = Some (Inr None)"
    using chosen_move_is_legal [OF wf, of White 2] nowhite by blast
  show ?thesis using wf pick legal nowhite none by blast
qed

section \<open>The board after a move\<close>

text \<open>
  C7. On an 8 by 8 board, moving from a square to a different, empty square and
  then moving back gives a board with the contents of the original one on every
  square.
\<close>

theorem move_and_back_restores:
  assumes bd: "boardOf h board = Some bd" and wf: "wfBoard bd"
    and origin: "inRange fromRow fromCol" and target: "inRange toRow toCol"
    and apart: "(fromRow, fromCol) \<noteq> (toRow, toCol)"
    and empty: "boardAt bd toRow toCol = Inr None"
  shows "\<exists>h1 b1 h2 b2.
           applyMove h board fromRow fromCol toRow toCol = Inr (h1, b1) \<and>
           applyMove h1 b1 toRow toCol fromRow fromCol = Inr (h2, b2) \<and>
           boardOf h2 b2 = Some bd"
proof -
  obtain h1 where there: "applyMove h board fromRow fromCol toRow toCol = Inr (h1, length h + 8)"
    and bd1: "boardOf h1 (length h + 8) = Some (movedBoard bd fromRow fromCol toRow toCol)"
    using applyMove_result [OF bd wf origin target] by blast
  have wf1: "wfBoard (movedBoard bd fromRow fromCol toRow toCol)"
    using wf by (rule wfBoard_movedBoard)
  obtain h2 where again: "applyMove h1 (length h + 8) toRow toCol fromRow fromCol = Inr (h2, length h1 + 8)"
    and bd2: "boardOf h2 (length h1 + 8) =
        Some (movedBoard (movedBoard bd fromRow fromCol toRow toCol) toRow toCol fromRow fromCol)"
    using applyMove_result [OF bd1 wf1 target origin] by blast
  have "bd ! nat toRow ! nat toCol = None"
    using empty by (simp add: boardAt_inRange [OF wf target])
  then have "movedBoard (movedBoard bd fromRow fromCol toRow toCol) toRow toCol fromRow fromCol = bd"
    by (rule movedBoard_back [OF wf origin target apart])
  then show ?thesis using there again bd2 by auto
qed

theorem move_and_back_restores_witness:
  "boardOf (heapOf sampleBoard) 8 = Some sampleBoard \<and> wfBoard sampleBoard \<and>
   inRange 6 4 \<and> inRange 4 4 \<and> ((6, 4) :: int \<times> int) \<noteq> (4, 4) \<and>
   boardAt sampleBoard 4 4 = Inr None \<and>
   (\<exists>h1 b1 h2 b2.
      applyMove (heapOf sampleBoard) 8 6 4 4 4 = Inr (h1, b1) \<and>
      applyMove h1 b1 4 4 6 4 = Inr (h2, b2) \<and>
      boardOf h2 b2 = Some sampleBoard)"
proof -
  have h: "boardOf (heapOf sampleBoard) 8 = Some sampleBoard" "wfBoard sampleBoard"
    "inRange 6 4" "inRange 4 4" "((6, 4) :: int \<times> int) \<noteq> (4, 4)"
    "boardAt sampleBoard 4 4 = Inr None"
    by code_simp+
  show ?thesis using h move_and_back_restores [OF h] by simp
qed

text \<open>
  What \<open>applyMove\<close> does for any two squares of an 8 by 8 board: the origin is
  empty afterwards, a destination other than the origin holds what the origin held,
  every other square is as before, and the board passed in is untouched.
\<close>

lemma applyMove_squares:
  assumes bd: "boardOf h board = Some bd" and wf: "wfBoard bd"
    and origin: "inRange fromRow fromCol" and target: "inRange toRow toCol"
  shows "\<exists>h' newBoard bd'.
           applyMove h board fromRow fromCol toRow toCol = Inr (h', newBoard) \<and>
           boardOf h' newBoard = Some bd' \<and> wfBoard bd' \<and>
           boardAt bd' fromRow fromCol = Inr None \<and>
           ((fromRow, fromCol) \<noteq> (toRow, toCol) \<longrightarrow>
              boardAt bd' toRow toCol = boardAt bd fromRow fromCol) \<and>
           (\<forall>r c. inRange r c \<and> (r, c) \<noteq> (fromRow, fromCol) \<and> (r, c) \<noteq> (toRow, toCol) \<longrightarrow>
              boardAt bd' r c = boardAt bd r c) \<and>
           boardOf h' board = Some bd \<and> (\<forall>a<length h. h' ! a = h ! a)"
proof -
  let ?bd' = "movedBoard bd fromRow fromCol toRow toCol"
  obtain h' where run: "applyMove h board fromRow fromCol toRow toCol = Inr (h', length h + 8)"
    and bd': "boardOf h' (length h + 8) = Some ?bd'"
    and len: "length h \<le> length h'" and old: "\<forall>a<length h. h' ! a = h ! a"
    using applyMove_result [OF bd wf origin target] by blast
  have wf': "wfBoard ?bd'" using wf by (rule wfBoard_movedBoard)
  have at: "boardAt ?bd' r c =
      Inr (if r = fromRow \<and> c = fromCol then None
           else if r = toRow \<and> c = toCol then bd ! nat fromRow ! nat fromCol
           else bd ! nat r ! nat c)" if "inRange r c" for r c
    using boardAt_inRange [OF wf' that] movedBoard_at [OF wf origin target that] by simp
  have "boardAt ?bd' fromRow fromCol = Inr None"
    using at [OF origin] by simp
  moreover have "boardAt ?bd' toRow toCol = boardAt bd fromRow fromCol"
    if "(fromRow, fromCol) \<noteq> (toRow, toCol)"
    using at [OF target] that boardAt_inRange [OF wf origin] by auto
  moreover have "boardAt ?bd' r c = boardAt bd r c"
    if "inRange r c \<and> (r, c) \<noteq> (fromRow, fromCol) \<and> (r, c) \<noteq> (toRow, toCol)" for r c
    using that at [of r c] boardAt_inRange [OF wf, of r c] by auto
  moreover have "boardOf h' board = Some bd"
    using bd len old by (intro boardOf_preserved [of h board bd h']) auto
  ultimately show ?thesis using run bd' wf' old by blast
qed

text \<open>
  A move that \<open>isValidMove\<close> accepts goes to another square: on its own square a
  piece meets itself and is refused, and an empty origin is refused as well.
\<close>

lemma accepted_move_moves:
  assumes "isValidMove bd fromRow fromCol toRow toCol = Some (Inr True)"
  shows "(fromRow, fromCol) \<noteq> (toRow, toCol)"
proof
  assume "(fromRow, fromCol) = (toRow, toCol)"
  then have same: "toRow = fromRow" "toCol = fromCol" by simp_all
  show False
  proof (cases "boardAt bd fromRow fromCol")
    case (Inl e)
    then show False using assms by (simp add: isValidMove_def isValidMoveWith_def)
  next
    case (Inr v)
    show False
    proof (cases v)
      case None
      then have "isValidMoveWith (boardAt bd) fromRow fromCol toRow toCol = Some (Inr False)"
        using Inr by (intro isValidMoveWith_empty_origin) simp
      then show False using assms by (simp add: isValidMove_def)
    next
      case (Some p)
      then have piece: "boardAt bd fromRow fromCol = Inr (Some p)" using Inr by simp
      have "isValidMoveWith (boardAt bd) fromRow fromCol fromRow fromCol = Some (Inr False)"
        using piece piece by (rule isValidMoveWith_same_color) simp
      then show False using assms same by (simp add: isValidMove_def)
    qed
  qed
qed

text \<open>
  C8. The page applies a move only after \<open>isValidMove\<close> has accepted it. For every
  8 by 8 board and every such move, \<open>applyMove\<close> returns a new board on which the
  destination holds exactly what the origin held, the origin is empty, and every
  other square holds what it held before. The board passed in still has its old
  contents in the new store, and no object that existed before has changed.
\<close>

theorem applyMove_relocates:
  assumes bd: "boardOf h board = Some bd" and wf: "wfBoard bd"
    and origin: "inRange fromRow fromCol" and target: "inRange toRow toCol"
    and legal: "isValidMove bd fromRow fromCol toRow toCol = Some (Inr True)"
  shows "\<exists>h' newBoard bd'.
           applyMove h board fromRow fromCol toRow toCol = Inr (h', newBoard) \<and>
           boardOf h' newBoard = Some bd' \<and> wfBoard bd' \<and>
           boardAt bd' toRow toCol = boardAt bd fromRow fromCol \<and>
           boardAt bd' fromRow fromCol = Inr None \<and>
           (\<forall>r c. inRange r c \<and> (r, c) \<noteq> (fromRow, fromCol) \<and> (r, c) \<noteq> (toRow, toCol) \<longrightarrow>
              boardAt bd' r c = boardAt bd r c) \<and>
           boardOf h' board = Some bd \<and> (\<forall>a<length h. h' ! a = h ! a)"
proof -
  have apart: "(fromRow, fromCol) \<noteq> (toRow, toCol)"
    using legal by (rule accepted_move_moves)
  obtain h' newBoard bd' where
    "applyMove h board fromRow fromCol toRow toCol = Inr (h', newBoard)"
    "boardOf h' newBoard = Some bd'" "wfBoard bd'"
    "boardAt bd' fromRow fromCol = Inr None"
    "(fromRow, fromCol) \<noteq> (toRow, toCol) \<longrightarrow>
       boardAt bd' toRow toCol = boardAt bd fromRow fromCol"
    "\<forall>r c. inRange r c \<and> (r, c) \<noteq> (fromRow, fromCol) \<and> (r, c) \<noteq> (toRow, toCol) \<longrightarrow>
       boardAt bd' r c = boardAt bd r c"
    "boardOf h' board = Some bd" "\<forall>a<length h. h' ! a = h ! a"
    using applyMove_squares [OF bd wf origin target] by blast
  with apart show ?thesis by blast
qed

theorem applyMove_relocates_witness:
  "boardOf (heapOf sampleBoard) 8 = Some sampleBoard \<and> wfBoard sampleBoard \<and>
   inRange 6 4 \<and> inRange 5 3 \<and>
   isValidMove sampleBoard 6 4 5 3 = Some (Inr True) \<and>
   (\<exists>h' newBoard bd'.
      applyMove (heapOf sampleBoard) 8 6 4 5 3 = Inr (h', newBoard) \<and>
      boardOf h' newBoard = Some bd' \<and> wfBoard bd' \<and>
      boardAt bd' 5 3 = boardAt sampleBoard 6 4 \<and>
      boardAt bd' 6 4 = Inr None \<and>
      (\<forall>r c. inRange r c \<and> (r, c) \<noteq> (6, 4) \<and> (r, c) \<noteq> (5, 3) \<longrightarrow>
         boardAt bd' r c = boardAt sampleBoard r c) \<and>
      boardOf h' 8 = Some sampleBoard \<and> (\<forall>a<length (heapOf sampleBoard). h' ! a = heapOf sampleBoard ! a))"
proof -
  have h: "boardOf (heapOf sampleBoard) 8 = Some sampleBoard" "wfBoard sampleBoard"
    "inRange 6 4" "inRange 5 3" "isValidMove sampleBoard 6 4 5 3 = Some (Inr True)"
    by code_simp+
  show ?thesis using h applyMove_relocates [OF h] by simp
qed

end
